theory Spec2Isabelle
  imports Main
begin

section \<open>Errors\<close>

text \<open>
  Go error values as far as package ticker builds and compares them.
  \<^item> \<open>ErrorString msg\<close> is the value of \<open>errors.New(msg)\<close>;
  \<^item> \<open>WrapError msg err\<close> is the value of \<open>fmt.Errorf\<close> with one \<open>%w\<close> verb: it carries the
    formatted message and the wrapped error, which \<open>Unwrap\<close> gives back;
  \<^item> \<open>DeadlineExceededError\<close> is the value of \<open>context.DeadlineExceeded\<close>.
  Equality of the model stands for the identity comparison that \<open>errors.Is\<close> makes: two
  errors made by separate calls of \<open>errors.New\<close> with the same text are different values
  in Go and equal here, and the package and package context have no such pair.
\<close>

datatype error =
    ErrorString string
  | WrapError string error
  | DeadlineExceededError

fun Error :: "error \<Rightarrow> string" where
  "Error (ErrorString msg) = msg"
| "Error (WrapError msg err) = msg"
| "Error DeadlineExceededError = ''context deadline exceeded''"

fun Unwrap :: "error \<Rightarrow> error option" where
  "Unwrap (WrapError msg err) = Some err"
| "Unwrap (ErrorString msg) = None"
| "Unwrap DeadlineExceededError = None"

text \<open>\<open>errors.Is(err, target)\<close>: walk the chain of \<open>Unwrap\<close> and compare each link with the target.\<close>

fun errors_Is :: "error \<Rightarrow> error \<Rightarrow> bool" where
  "errors_Is (WrapError msg err) target =
     (WrapError msg err = target \<or> errors_Is err target)"
| "errors_Is (ErrorString msg) target = (ErrorString msg = target)"
| "errors_Is DeadlineExceededError target = (DeadlineExceededError = target)"

definition errors_New :: "string \<Rightarrow> error" where
  "errors_New text = ErrorString text"

text \<open>\<open>fmt.Errorf("%w" + rest, err)\<close>: the message is the one of \<open>err\<close> followed by \<open>rest\<close>.\<close>

definition Errorf_w :: "string \<Rightarrow> error \<Rightarrow> error" where
  "Errorf_w rest err = WrapError (Error err @ rest) err"

definition ErrInvalidArgument :: error where
  "ErrInvalidArgument = errors_New ''invalid argument''"

definition ErrNonPositiveInterval :: error where
  "ErrNonPositiveInterval = Errorf_w '': non-positive interval'' ErrInvalidArgument"

definition ErrNilFunction :: error where
  "ErrNilFunction = Errorf_w '': function must not be nil'' ErrInvalidArgument"

text \<open>The two reasons a context of package context reports once it is done.\<close>

definition Canceled :: error where
  "Canceled = errors_New ''context canceled''"

definition DeadlineExceeded :: error where
  "DeadlineExceeded = DeadlineExceededError"

section \<open>Options and configuration\<close>

record config =
  Immediate :: bool
  Limit :: int

text \<open>
  \<open>Option\<close> is an interface with the unexported method \<open>apply\<close>; its values are the two
  implementations of the package, the types \<open>immediate\<close> and \<open>limit\<close>, and the nil interface.
  \<open>Limit\<close> is a Go \<open>int\<close>; the only arithmetic on it is the decrement of a positive value,
  which never wraps, so it is modelled by \<open>int\<close>.
\<close>

datatype Option = immediate_Option bool | limit_Option int | nil_Option

definition WithImmediate :: "bool \<Rightarrow> Option" where
  "WithImmediate v = immediate_Option v"

definition WithLimit :: "int \<Rightarrow> Option" where
  "WithLimit v = limit_Option v"

text \<open>\<open>opt.apply(c)\<close>; a method call on the nil interface panics, which is \<open>None\<close>.\<close>

fun apply_opt :: "Option \<Rightarrow> config \<Rightarrow> config option" where
  "apply_opt (immediate_Option v) c = Some (c\<lparr>Immediate := v\<rparr>)"
| "apply_opt (limit_Option v) c = Some (c\<lparr>Limit := v\<rparr>)"
| "apply_opt nil_Option c = None"

text \<open>The loop \<open>for _, opt := range options { opt.apply(c) }\<close>.\<close>

fun apply_options :: "Option list \<Rightarrow> config \<Rightarrow> config option" where
  "apply_options [] c = Some c"
| "apply_options (opt # options) c =
     (case apply_opt opt c of None \<Rightarrow> None | Some c' \<Rightarrow> apply_options options c')"

text \<open>
  The configuration of a run: \<open>c := &config{Limit: -1}\<close>, then every option applied in
  the order given.
\<close>

definition configure :: "Option list \<Rightarrow> config option" where
  "configure options = apply_options options \<lparr>Immediate = False, Limit = - 1\<rparr>"

section \<open>Tasks and the world they run in\<close>

text \<open>
  A Go \<open>func() error\<close> is a closure: it reads and writes the state it captured and returns
  nil or an error. It is modelled as a function from that state to the returned error and
  the new state, and is assumed to return. \<open>Task\<close> is the same function type, whose zero
  value is nil.
\<close>

type_synonym 's func = "'s \<Rightarrow> error option \<times> 's"

type_synonym 's Task = "'s func option"

definition New :: "'s func option \<Rightarrow> 's Task" where
  "New task = task"

text \<open>
  What a \<open>select\<close> of the loops receives: a tick from \<open>t.C\<close>, or the closing of
  \<open>ctx.Done()\<close>, after which \<open>ctx.Err()\<close> gives the reason carried here (non-nil by the
  contract of \<open>context.Context\<close>). Which of the two a wait receives depends on time and on
  the caller; it is given by a schedule, the outcome of the i-th wait of the run.
\<close>

datatype event = Tick | Done error

type_synonym schedule = "nat \<Rightarrow> event"

text \<open>The actions of a run that can be seen from outside, in the order they happen.\<close>

datatype action =
    Call "error option"
  | NewTicker int
  | Select event
  | Stop

record 's world =
  st :: 's
  trace :: "action list"
  waits :: nat

definition start :: "'s \<Rightarrow> 's world" where
  "start s = \<lparr>st = s, trace = [], waits = 0\<rparr>"

fun is_Call :: "action \<Rightarrow> bool" where
  "is_Call (Call r) = True"
| "is_Call (NewTicker d) = False"
| "is_Call (Select e) = False"
| "is_Call Stop = False"

definition invocations :: "'s world \<Rightarrow> nat" where
  "invocations w = length (filter is_Call (trace w))"

text \<open>\<open>task()\<close>.\<close>

definition call :: "'s func \<Rightarrow> 's world \<Rightarrow> error option \<times> 's world" where
  "call task w =
     (case task (st w) of
        (err, s') \<Rightarrow> (err, w\<lparr>st := s', trace := trace w @ [Call err]\<rparr>))"

text \<open>One \<open>select\<close> over \<open>t.C\<close> and \<open>ctx.Done()\<close>.\<close>

definition select :: "schedule \<Rightarrow> 's world \<Rightarrow> event \<times> 's world" where
  "select sched w =
     (sched (waits w),
      w\<lparr>trace := trace w @ [Select (sched (waits w))], waits := waits w + 1\<rparr>)"

definition record_action :: "action \<Rightarrow> 's world \<Rightarrow> 's world" where
  "record_action a w = w\<lparr>trace := trace w @ [a]\<rparr>"

text \<open>
  How a call ends: it returns nil or an error, or it panics (\<open>opt.apply\<close> on a nil option,
  \<open>time.NewTicker\<close> with a non-positive duration).
\<close>

datatype outcome = Return "error option" | Panic

section \<open>The loops\<close>

text \<open>
  The loop of \<open>runLimit\<close>, \<open>for ; limit > 0; limit-- { select ... }\<close>. It ends because
  \<open>limit\<close> decreases.
\<close>

function runLimit_loop :: "'s func \<Rightarrow> schedule \<Rightarrow> int \<Rightarrow> 's world \<Rightarrow> outcome \<times> 's world" where
  "runLimit_loop task sched limit w =
     (if 0 < limit then
        (case select sched w of
           (Tick, w1) \<Rightarrow>
             (case call task w1 of
                (Some err, w2) \<Rightarrow> (Return (Some err), w2)
              | (None, w2) \<Rightarrow> runLimit_loop task sched (limit - 1) w2)
         | (Done reason, w1) \<Rightarrow> (Return (Some reason), w1))
      else (Return None, w))"
  by pat_completeness auto
termination
  by (relation "measure (\<lambda>(task, sched, limit, w). nat limit)") auto

text \<open>
  From \<open>t := time.NewTicker(d); defer t.Stop()\<close> to the end of \<open>runLimit\<close>. \<open>NewTicker\<close>
  panics when \<open>d\<close> is not positive; the deferred \<open>Stop\<close> runs on every return of the loop.
\<close>

definition runLimit_ticker :: "'s func \<Rightarrow> schedule \<Rightarrow> int \<Rightarrow> int \<Rightarrow> 's world \<Rightarrow> outcome \<times> 's world" where
  "runLimit_ticker task sched d limit w =
     (if d \<le> 0 then (Panic, w)
      else (case runLimit_loop task sched limit (record_action (NewTicker d) w) of
              (out, w') \<Rightarrow> (out, record_action Stop w')))"

definition runLimit :: "'s func \<Rightarrow> schedule \<Rightarrow> int \<Rightarrow> config \<Rightarrow> 's world \<Rightarrow> outcome \<times> 's world" where
  "runLimit task sched d c w =
     (if Immediate c then
        (case call task w of
           (Some err, w1) \<Rightarrow> (Return (Some err), w1)
         | (None, w1) \<Rightarrow>
             (if Limit c - 1 = 0 then (Return None, w1)
              else runLimit_ticker task sched d (Limit c - 1) w1))
      else runLimit_ticker task sched d (Limit c) w)"

text \<open>
  The loop of \<open>run\<close>, \<open>for { select ... }\<close>, which has no exit of its own. The first
  argument bounds the number of waits that are followed: \<open>None\<close> says that the loop is still
  running after that many, in the world returned with it.
\<close>

fun run_loop :: "nat \<Rightarrow> 's func \<Rightarrow> schedule \<Rightarrow> 's world \<Rightarrow> outcome option \<times> 's world" where
  "run_loop 0 task sched w = (None, w)"
| "run_loop (Suc fuel) task sched w =
     (case select sched w of
        (Tick, w1) \<Rightarrow>
          (case call task w1 of
             (Some err, w2) \<Rightarrow> (Some (Return (Some err)), w2)
           | (None, w2) \<Rightarrow> run_loop fuel task sched w2)
      | (Done reason, w1) \<Rightarrow> (Some (Return (Some reason)), w1))"

definition run_ticker :: "nat \<Rightarrow> 's func \<Rightarrow> schedule \<Rightarrow> int \<Rightarrow> 's world \<Rightarrow> outcome option \<times> 's world" where
  "run_ticker fuel task sched d w =
     (if d \<le> 0 then (Some Panic, w)
      else (case run_loop fuel task sched (record_action (NewTicker d) w) of
              (None, w') \<Rightarrow> (None, w')
            | (Some out, w') \<Rightarrow> (Some out, record_action Stop w')))"

definition run :: "nat \<Rightarrow> 's func \<Rightarrow> schedule \<Rightarrow> int \<Rightarrow> config \<Rightarrow> 's world \<Rightarrow> outcome option \<times> 's world" where
  "run fuel task sched d c w =
     (if Immediate c then
        (case call task w of
           (Some err, w1) \<Rightarrow> (Some (Return (Some err)), w1)
         | (None, w1) \<Rightarrow> run_ticker fuel task sched d w1)
      else run_ticker fuel task sched d w)"

section \<open>Run\<close>

text \<open>
  \<open>task.Run(ctx, d, options...)\<close>. The duration \<open>d\<close> is a \<open>time.Duration\<close>, compared with
  zero only. The context and the ticker are seen through the schedule; \<open>fuel\<close> is the bound
  of \<open>run_loop\<close> and is not used on any other path.
\<close>

definition Run :: "nat \<Rightarrow> 's Task \<Rightarrow> schedule \<Rightarrow> int \<Rightarrow> Option list \<Rightarrow> 's world \<Rightarrow> outcome option \<times> 's world" where
  "Run fuel task sched d options w =
     (if d \<le> 0 then (Some (Return (Some ErrNonPositiveInterval)), w)
      else (case task of
              None \<Rightarrow> (Some (Return (Some ErrNilFunction)), w)
            | Some f \<Rightarrow>
                (case configure options of
                   None \<Rightarrow> (Some Panic, w)
                 | Some c \<Rightarrow>
                     (if Limit c = 0 then (Some (Return None), w)
                      else if 0 < Limit c then
                        (case runLimit f sched d c w of (out, w') \<Rightarrow> (Some out, w'))
                      else run fuel f sched d c w))))"

section \<open>Describing tasks and schedules\<close>

text \<open>
  The state of a task after \<open>n\<close> invocations one after the other, and what the invocation
  after these returns.
\<close>

fun state_after :: "'s func \<Rightarrow> nat \<Rightarrow> 's \<Rightarrow> 's" where
  "state_after task 0 s = s"
| "state_after task (Suc n) s = state_after task n (snd (task s))"

definition result_of :: "'s func \<Rightarrow> 's \<Rightarrow> nat \<Rightarrow> error option" where
  "result_of task s n = fst (task (state_after task n s))"

text \<open>The world after \<open>m\<close> more waits that each received a tick and invoked the task with success.\<close>

definition after_ticks :: "'s func \<Rightarrow> nat \<Rightarrow> 's world \<Rightarrow> 's world" where
  "after_ticks task m w =
     w\<lparr>st := state_after task m (st w),
       trace := trace w @ concat (replicate m [Select Tick, Call None]),
       waits := waits w + m\<rparr>"

text \<open>
  The next \<open>n\<close> waits from a world on receive a tick each, and the invocations they make
  succeed.
\<close>

definition ticked :: "'s func \<Rightarrow> schedule \<Rightarrow> nat \<Rightarrow> 's world \<Rightarrow> bool" where
  "ticked task sched n w \<longleftrightarrow>
     (\<forall>i<n. sched (waits w + i) = Tick) \<and> (\<forall>j<n. result_of task (st w) j = None)"

text \<open>
  The world after one more wait that received a tick and invoked the task, which returned
  \<open>err\<close>; and after one more wait that found the context done.
\<close>

definition failed_tick :: "'s func \<Rightarrow> error \<Rightarrow> 's world \<Rightarrow> 's world" where
  "failed_tick task err w =
     w\<lparr>st := snd (task (st w)),
       trace := trace w @ [Select Tick, Call (Some err)],
       waits := waits w + 1\<rparr>"

definition cancelled :: "error \<Rightarrow> 's world \<Rightarrow> 's world" where
  "cancelled reason w =
     w\<lparr>trace := trace w @ [Select (Done reason)], waits := waits w + 1\<rparr>"

text \<open>The world after one invocation of the task, whatever it returned.\<close>

definition called :: "'s func \<Rightarrow> 's world \<Rightarrow> 's world" where
  "called task w = w\<lparr>st := snd (task (st w)), trace := trace w @ [Call (fst (task (st w)))]\<rparr>"

text \<open>The results of the invocations of a run, in order.\<close>

definition calls :: "'s world \<Rightarrow> action list" where
  "calls w = filter is_Call (trace w)"


text \<open>
  Tasks over a counter of their own invocations: one that always succeeds, and one that
  fails with \<open>err\<close> on the invocation after \<open>k\<close> successes.
\<close>

definition ok_task :: "nat func" where
  "ok_task s = (None, Suc s)"

definition fail_after :: "nat \<Rightarrow> error \<Rightarrow> nat func" where
  "fail_after k err s = (if s = k then Some err else None, Suc s)"

text \<open>
  Schedules: the ticker always wins, and the context is done with \<open>reason\<close> from wait
  \<open>k\<close> on.
\<close>

definition always_tick :: schedule where
  "always_tick i = Tick"

definition done_from :: "nat \<Rightarrow> error \<Rightarrow> schedule" where
  "done_from k reason i = (if i < k then Tick else Done reason)"

section \<open>Properties of the loops\<close>

declare runLimit_loop.simps [simp del]

lemma result_of_0: "result_of task s 0 = fst (task s)"
  by (simp add: result_of_def)

lemma result_of_Suc: "result_of task s (Suc n) = result_of task (snd (task s)) n"
  by (simp add: result_of_def)

lemma after_ticks_0: "after_ticks task 0 w = w"
  by (simp add: after_ticks_def)

lemma after_ticks_Suc:
  "after_ticks task (Suc m) w = after_ticks task m (after_ticks task 1 w)"
  by (simp add: after_ticks_def)

lemma after_ticks_sel:
  "st (after_ticks task m w) = state_after task m (st w)"
  "waits (after_ticks task m w) = waits w + m"
  "trace (after_ticks task m w) = trace w @ concat (replicate m [Select Tick, Call None])"
  by (simp_all add: after_ticks_def)

lemma runLimit_loop_zero: "limit \<le> 0 \<Longrightarrow> runLimit_loop task sched limit w = (Return None, w)"
  by (simp add: runLimit_loop.simps)

lemma runLimit_loop_Done:
  "0 < limit \<Longrightarrow> sched (waits w) = Done reason \<Longrightarrow>
   runLimit_loop task sched limit w = (Return (Some reason), cancelled reason w)"
  by (simp add: runLimit_loop.simps select_def cancelled_def)

lemma runLimit_loop_error:
  "0 < limit \<Longrightarrow> sched (waits w) = Tick \<Longrightarrow> fst (task (st w)) = Some err \<Longrightarrow>
   runLimit_loop task sched limit w = (Return (Some err), failed_tick task err w)"
  by (cases w; cases "task (st w)")
    (simp add: runLimit_loop.simps select_def call_def failed_tick_def)

lemma runLimit_loop_step:
  "0 < limit \<Longrightarrow> sched (waits w) = Tick \<Longrightarrow> fst (task (st w)) = None \<Longrightarrow>
   runLimit_loop task sched limit w =
     runLimit_loop task sched (limit - 1) (after_ticks task 1 w)"
  by (cases w; cases "task (st w)")
    (simp add: runLimit_loop.simps select_def call_def after_ticks_def)

lemma runLimit_loop_ticks:
  "\<forall>i<m. sched (waits w + i) = Tick \<Longrightarrow> \<forall>j<m. result_of task (st w) j = None \<Longrightarrow>
   int m \<le> limit \<Longrightarrow>
   runLimit_loop task sched limit w =
     runLimit_loop task sched (limit - int m) (after_ticks task m w)"
proof (induction m arbitrary: w limit)
  case 0
  then show ?case by (simp add: after_ticks_0)
next
  case (Suc m)
  let ?w1 = "after_ticks task 1 w"
  have tick0: "sched (waits w) = Tick"
    using Suc.prems(1) by (metis add.right_neutral zero_less_Suc)
  have ok0: "fst (task (st w)) = None"
    using Suc.prems(2) by (metis result_of_0 zero_less_Suc)
  have pos: "0 < limit"
    using Suc.prems(3) by simp
  have ticks: "\<forall>i<m. sched (waits ?w1 + i) = Tick"
  proof (intro allI impI)
    fix i assume "i < m"
    then have "Suc i < Suc m" by simp
    then have "sched (waits w + Suc i) = Tick"
      using Suc.prems(1) by blast
    then show "sched (waits ?w1 + i) = Tick"
      by (simp add: after_ticks_sel)
  qed
  have oks: "\<forall>j<m. result_of task (st ?w1) j = None"
  proof (intro allI impI)
    fix j assume "j < m"
    then have "Suc j < Suc m" by simp
    then have "result_of task (st w) (Suc j) = None"
      using Suc.prems(2) by blast
    then show "result_of task (st ?w1) j = None"
      by (simp add: after_ticks_sel result_of_Suc)
  qed
  have le: "int m \<le> limit - 1"
    using Suc.prems(3) by simp
  have "runLimit_loop task sched limit w = runLimit_loop task sched (limit - 1) ?w1"
    using pos tick0 ok0 by (rule runLimit_loop_step)
  also have "\<dots> = runLimit_loop task sched (limit - 1 - int m) (after_ticks task m ?w1)"
    using ticks oks le by (rule Suc.IH)
  also have "limit - 1 - int m = limit - int (Suc m)"
    by simp
  also have "after_ticks task m ?w1 = after_ticks task (Suc m) w"
    by (rule after_ticks_Suc [symmetric])
  finally show ?case .
qed

lemma run_loop_Done:
  "sched (waits w) = Done reason \<Longrightarrow>
   run_loop (Suc fuel) task sched w = (Some (Return (Some reason)), cancelled reason w)"
  by (simp add: select_def cancelled_def)

lemma run_loop_error:
  "sched (waits w) = Tick \<Longrightarrow> fst (task (st w)) = Some err \<Longrightarrow>
   run_loop (Suc fuel) task sched w = (Some (Return (Some err)), failed_tick task err w)"
  by (cases w; cases "task (st w)") (simp add: select_def call_def failed_tick_def)

lemma run_loop_step:
  "sched (waits w) = Tick \<Longrightarrow> fst (task (st w)) = None \<Longrightarrow>
   run_loop (Suc fuel) task sched w = run_loop fuel task sched (after_ticks task 1 w)"
  by (cases w; cases "task (st w)") (simp add: select_def call_def after_ticks_def)

declare run_loop.simps(2) [simp del]

lemma run_loop_ticks:
  "\<forall>i<m. sched (waits w + i) = Tick \<Longrightarrow> \<forall>j<m. result_of task (st w) j = None \<Longrightarrow>
   run_loop (m + fuel) task sched w = run_loop fuel task sched (after_ticks task m w)"
proof (induction m arbitrary: w)
  case 0
  then show ?case by (simp add: after_ticks_0)
next
  case (Suc m)
  let ?w1 = "after_ticks task 1 w"
  have tick0: "sched (waits w) = Tick"
    using Suc.prems(1) by (metis add.right_neutral zero_less_Suc)
  have ok0: "fst (task (st w)) = None"
    using Suc.prems(2) by (metis result_of_0 zero_less_Suc)
  have ticks: "\<forall>i<m. sched (waits ?w1 + i) = Tick"
  proof (intro allI impI)
    fix i assume "i < m"
    then have "Suc i < Suc m" by simp
    then have "sched (waits w + Suc i) = Tick"
      using Suc.prems(1) by blast
    then show "sched (waits ?w1 + i) = Tick"
      by (simp add: after_ticks_sel)
  qed
  have oks: "\<forall>j<m. result_of task (st ?w1) j = None"
  proof (intro allI impI)
    fix j assume "j < m"
    then have "Suc j < Suc m" by simp
    then have "result_of task (st w) (Suc j) = None"
      using Suc.prems(2) by blast
    then show "result_of task (st ?w1) j = None"
      by (simp add: after_ticks_sel result_of_Suc)
  qed
  have "run_loop (Suc m + fuel) task sched w = run_loop (m + fuel) task sched ?w1"
    using run_loop_step [of sched w task "m + fuel"] tick0 ok0 by simp
  also have "\<dots> = run_loop fuel task sched (after_ticks task m ?w1)"
    using ticks oks by (rule Suc.IH)
  also have "after_ticks task m ?w1 = after_ticks task (Suc m) w"
    by (rule after_ticks_Suc [symmetric])
  finally show ?case .
qed

lemma invocations_calls: "invocations w = length (calls w)"
  by (simp add: invocations_def calls_def)

lemma calls_after_ticks: "calls (after_ticks task m w) = calls w @ replicate m (Call None)"
proof -
  have "filter is_Call (concat (replicate m [Select Tick, Call None])) = replicate m (Call None)"
    by (induction m) simp_all
  then show ?thesis
    by (simp add: calls_def after_ticks_sel)
qed

lemma calls_record_action:
  "calls (record_action a w) = calls w @ (if is_Call a then [a] else [])"
  by (simp add: calls_def record_action_def)

lemma calls_failed_tick: "calls (failed_tick task err w) = calls w @ [Call (Some err)]"
  by (simp add: calls_def failed_tick_def)

lemma calls_cancelled: "calls (cancelled reason w) = calls w"
  by (simp add: calls_def cancelled_def)

lemma record_action_sel:
  "st (record_action a w) = st w"
  "waits (record_action a w) = waits w"
  "trace (record_action a w) = trace w @ [a]"
  by (simp_all add: record_action_def)

lemma failed_tick_sel:
  "st (failed_tick task err w) = snd (task (st w))"
  "waits (failed_tick task err w) = waits w + 1"
  "trace (failed_tick task err w) = trace w @ [Select Tick, Call (Some err)]"
  by (simp_all add: failed_tick_def)

lemma cancelled_sel:
  "st (cancelled reason w) = st w"
  "waits (cancelled reason w) = waits w + 1"
  "trace (cancelled reason w) = trace w @ [Select (Done reason)]"
  by (simp_all add: cancelled_def)

text \<open>The three ways the bounded loop ends after \<open>m\<close> successful ticks.\<close>

lemma runLimit_loop_exhausted:
  assumes "\<forall>i<m. sched (waits w + i) = Tick" "\<forall>j<m. result_of task (st w) j = None"
    "limit = int m"
  shows "runLimit_loop task sched limit w = (Return None, after_ticks task m w)"
proof -
  have "runLimit_loop task sched limit w =
      runLimit_loop task sched (limit - int m) (after_ticks task m w)"
    using assms by (intro runLimit_loop_ticks) simp_all
  then show ?thesis
    using assms(3) by (simp add: runLimit_loop_zero)
qed

lemma runLimit_loop_cancelled:
  assumes "\<forall>i<m. sched (waits w + i) = Tick" "\<forall>j<m. result_of task (st w) j = None"
    "int m < limit" "sched (waits w + m) = Done reason"
  shows "runLimit_loop task sched limit w =
    (Return (Some reason), cancelled reason (after_ticks task m w))"
proof -
  have "runLimit_loop task sched limit w =
      runLimit_loop task sched (limit - int m) (after_ticks task m w)"
    using assms by (intro runLimit_loop_ticks) simp_all
  also have "\<dots> = (Return (Some reason), cancelled reason (after_ticks task m w))"
    using assms(3,4) by (simp add: runLimit_loop_Done after_ticks_sel)
  finally show ?thesis .
qed

lemma runLimit_loop_failed:
  assumes "\<forall>i<Suc m. sched (waits w + i) = Tick" "\<forall>j<m. result_of task (st w) j = None"
    "int m < limit" "result_of task (st w) m = Some err"
  shows "runLimit_loop task sched limit w =
    (Return (Some err), failed_tick task err (after_ticks task m w))"
proof -
  let ?w = "after_ticks task m w"
  have "runLimit_loop task sched limit w = runLimit_loop task sched (limit - int m) ?w"
    using assms by (intro runLimit_loop_ticks) simp_all
  moreover have "sched (waits ?w) = Tick"
    using assms(1) by (simp add: after_ticks_sel)
  moreover have "fst (task (st ?w)) = Some err"
    using assms(4) by (simp add: after_ticks_sel result_of_def)
  ultimately show ?thesis
    using assms(3) by (simp add: runLimit_loop_error)
qed

lemma run_loop_cancelled:
  assumes "\<forall>i<m. sched (waits w + i) = Tick" "\<forall>j<m. result_of task (st w) j = None"
    "m < fuel" "sched (waits w + m) = Done reason"
  shows "run_loop fuel task sched w =
    (Some (Return (Some reason)), cancelled reason (after_ticks task m w))"
proof -
  obtain fuel' where fuel: "fuel = m + Suc fuel'"
    using assms(3) less_iff_Suc_add by auto
  have "run_loop (m + Suc fuel') task sched w = run_loop (Suc fuel') task sched (after_ticks task m w)"
    using assms(1,2) by (rule run_loop_ticks)
  also have "\<dots> = (Some (Return (Some reason)), cancelled reason (after_ticks task m w))"
    using assms(4) by (simp add: run_loop_Done after_ticks_sel)
  finally show ?thesis
    using fuel by simp
qed

lemma run_loop_failed:
  assumes "\<forall>i<Suc m. sched (waits w + i) = Tick" "\<forall>j<m. result_of task (st w) j = None"
    "m < fuel" "result_of task (st w) m = Some err"
  shows "run_loop fuel task sched w =
    (Some (Return (Some err)), failed_tick task err (after_ticks task m w))"
proof -
  let ?w = "after_ticks task m w"
  obtain fuel' where fuel: "fuel = m + Suc fuel'"
    using assms(3) less_iff_Suc_add by auto
  have "run_loop (m + Suc fuel') task sched w = run_loop (Suc fuel') task sched ?w"
    using assms(1,2) by (intro run_loop_ticks) simp_all
  moreover have "sched (waits ?w) = Tick"
    using assms(1) by (simp add: after_ticks_sel)
  moreover have "fst (task (st ?w)) = Some err"
    using assms(4) by (simp add: after_ticks_sel result_of_def)
  ultimately show ?thesis
    using fuel by (simp add: run_loop_error)
qed

text \<open>The ticker phase of \<open>runLimit\<close> and of \<open>run\<close>: creation of the ticker, loop, deferred stop.\<close>

lemma runLimit_ticker_exhausted:
  assumes "0 < d" "\<forall>i<m. sched (waits w + i) = Tick"
    "\<forall>j<m. result_of task (st w) j = None" "limit = int m"
  shows "runLimit_ticker task sched d limit w =
    (Return None, record_action Stop (after_ticks task m (record_action (NewTicker d) w)))"
proof -
  let ?w = "record_action (NewTicker d) w"
  have "runLimit_loop task sched limit ?w = (Return None, after_ticks task m ?w)"
    using assms(2-4) by (intro runLimit_loop_exhausted) (simp_all add: record_action_sel)
  then show ?thesis
    using assms(1) by (simp add: runLimit_ticker_def)
qed

lemma runLimit_ticker_cancelled:
  assumes "0 < d" "\<forall>i<m. sched (waits w + i) = Tick"
    "\<forall>j<m. result_of task (st w) j = None" "int m < limit"
    "sched (waits w + m) = Done reason"
  shows "runLimit_ticker task sched d limit w =
    (Return (Some reason),
     record_action Stop (cancelled reason (after_ticks task m (record_action (NewTicker d) w))))"
proof -
  let ?w = "record_action (NewTicker d) w"
  have "runLimit_loop task sched limit ?w =
      (Return (Some reason), cancelled reason (after_ticks task m ?w))"
    using assms(2-5) by (intro runLimit_loop_cancelled) (simp_all add: record_action_sel)
  then show ?thesis
    using assms(1) by (simp add: runLimit_ticker_def)
qed

lemma runLimit_ticker_failed:
  assumes "0 < d" "\<forall>i<Suc m. sched (waits w + i) = Tick"
    "\<forall>j<m. result_of task (st w) j = None" "int m < limit"
    "result_of task (st w) m = Some err"
  shows "runLimit_ticker task sched d limit w =
    (Return (Some err),
     record_action Stop (failed_tick task err (after_ticks task m (record_action (NewTicker d) w))))"
proof -
  let ?w = "record_action (NewTicker d) w"
  have "runLimit_loop task sched limit ?w =
      (Return (Some err), failed_tick task err (after_ticks task m ?w))"
    using assms(2-5) by (intro runLimit_loop_failed) (simp_all add: record_action_sel)
  then show ?thesis
    using assms(1) by (simp add: runLimit_ticker_def)
qed

lemma run_ticker_cancelled:
  assumes "0 < d" "\<forall>i<m. sched (waits w + i) = Tick"
    "\<forall>j<m. result_of task (st w) j = None" "m < fuel"
    "sched (waits w + m) = Done reason"
  shows "run_ticker fuel task sched d w =
    (Some (Return (Some reason)),
     record_action Stop (cancelled reason (after_ticks task m (record_action (NewTicker d) w))))"
proof -
  let ?w = "record_action (NewTicker d) w"
  have "run_loop fuel task sched ?w =
      (Some (Return (Some reason)), cancelled reason (after_ticks task m ?w))"
    using assms(2-5) by (intro run_loop_cancelled) (simp_all add: record_action_sel)
  then show ?thesis
    using assms(1) by (simp add: run_ticker_def)
qed

lemma run_ticker_failed:
  assumes "0 < d" "\<forall>i<Suc m. sched (waits w + i) = Tick"
    "\<forall>j<m. result_of task (st w) j = None" "m < fuel"
    "result_of task (st w) m = Some err"
  shows "run_ticker fuel task sched d w =
    (Some (Return (Some err)),
     record_action Stop (failed_tick task err (after_ticks task m (record_action (NewTicker d) w))))"
proof -
  let ?w = "record_action (NewTicker d) w"
  have "run_loop fuel task sched ?w =
      (Some (Return (Some err)), failed_tick task err (after_ticks task m ?w))"
    using assms(2-5) by (intro run_loop_failed) (simp_all add: record_action_sel)
  then show ?thesis
    using assms(1) by (simp add: run_ticker_def)
qed

text \<open>The immediate invocation.\<close>

lemma call_eq: "call task w = (fst (task (st w)), called task w)"
  by (cases "task (st w)") (simp add: call_def called_def)

lemma called_sel:
  "st (called task w) = snd (task (st w))"
  "waits (called task w) = waits w"
  "trace (called task w) = trace w @ [Call (fst (task (st w)))]"
  by (simp_all add: called_def)

lemma calls_called: "calls (called task w) = calls w @ [Call (fst (task (st w)))]"
  by (simp add: calls_def called_def)

lemma calls_start: "calls (start s) = []"
  by (simp add: calls_def start_def)

lemma start_sel: "st (start s) = s" "waits (start s) = 0" "trace (start s) = []"
  by (simp_all add: start_def)

lemma Run_valid:
  "0 < d \<Longrightarrow> configure options = Some c \<Longrightarrow>
   Run fuel (Some task) sched d options w =
     (if Limit c = 0 then (Some (Return None), w)
      else if 0 < Limit c then
        (Some (fst (runLimit task sched d c w)), snd (runLimit task sched d c w))
      else run fuel task sched d c w)"
  by (simp add: Run_def split: prod.splits)

lemma runLimit_eq:
  "runLimit task sched d c w =
     (if Immediate c then
        (case fst (task (st w)) of
           Some err \<Rightarrow> (Return (Some err), called task w)
         | None \<Rightarrow>
             (if Limit c = 1 then (Return None, called task w)
              else runLimit_ticker task sched d (Limit c - 1) (called task w)))
      else runLimit_ticker task sched d (Limit c) w)"
  by (simp add: runLimit_def call_eq split: option.splits)

lemma run_eq:
  "run fuel task sched d c w =
     (if Immediate c then
        (case fst (task (st w)) of
           Some err \<Rightarrow> (Some (Return (Some err)), called task w)
         | None \<Rightarrow> run_ticker fuel task sched d (called task w))
      else run_ticker fuel task sched d w)"
  by (simp add: run_def call_eq split: option.splits)

text \<open>
  Every run of a loop is a number of ticks with a successful invocation each, followed by
  one of the ends of the loop.
\<close>

lemma ticked_0: "ticked task sched 0 w"
  by (simp add: ticked_def)

lemma ticked_Suc:
  assumes "sched (waits w) = Tick" "fst (task (st w)) = None"
    "ticked task sched n (after_ticks task 1 w)"
  shows "ticked task sched (Suc n) w"
  unfolding ticked_def
proof (intro conjI allI impI)
  fix i assume i: "i < Suc n"
  show "sched (waits w + i) = Tick"
  proof (cases i)
    case 0
    then show ?thesis using assms(1) by simp
  next
    case (Suc i')
    then have "i' < n" using i by simp
    then have "sched (waits (after_ticks task 1 w) + i') = Tick"
      using assms(3) by (simp add: ticked_def)
    then show ?thesis using Suc by (simp add: after_ticks_sel)
  qed
next
  fix j assume j: "j < Suc n"
  show "result_of task (st w) j = None"
  proof (cases j)
    case 0
    then show ?thesis using assms(2) by (simp add: result_of_0)
  next
    case (Suc j')
    then have "j' < n" using j by simp
    then have "result_of task (st (after_ticks task 1 w)) j' = None"
      using assms(3) by (simp add: ticked_def)
    then show ?thesis using Suc by (simp add: after_ticks_sel result_of_Suc)
  qed
qed

lemma run_loop_cases:
  "\<exists>n. ticked task sched n w \<and>
     (n = fuel \<and> run_loop fuel task sched w = (None, after_ticks task n w) \<or>
      n < fuel \<and> (\<exists>reason. sched (waits w + n) = Done reason \<and>
         run_loop fuel task sched w =
           (Some (Return (Some reason)), cancelled reason (after_ticks task n w))) \<or>
      n < fuel \<and> (\<exists>err. sched (waits w + n) = Tick \<and> result_of task (st w) n = Some err \<and>
         run_loop fuel task sched w =
           (Some (Return (Some err)), failed_tick task err (after_ticks task n w))))"
proof (induction fuel arbitrary: w)
  case 0
  have "ticked task sched 0 w" by (rule ticked_0)
  moreover have "run_loop 0 task sched w = (None, after_ticks task 0 w)"
    by (simp add: after_ticks_0)
  ultimately show ?case by blast
next
  case (Suc fuel)
  show ?case
  proof (cases "sched (waits w)")
    case (Done reason)
    have "ticked task sched 0 w" by (rule ticked_0)
    moreover have "run_loop (Suc fuel) task sched w =
        (Some (Return (Some reason)), cancelled reason (after_ticks task 0 w))"
      using Done by (simp add: run_loop_Done after_ticks_0)
    moreover have "sched (waits w + 0) = Done reason" "0 < Suc fuel"
      using Done by simp_all
    ultimately show ?thesis by blast
  next
    case Tick
    show ?thesis
    proof (cases "fst (task (st w))")
      case (Some err)
      have "ticked task sched 0 w" by (rule ticked_0)
      moreover have "run_loop (Suc fuel) task sched w =
          (Some (Return (Some err)), failed_tick task err (after_ticks task 0 w))"
        using Tick Some by (simp add: run_loop_error after_ticks_0)
      moreover have "sched (waits w + 0) = Tick" "result_of task (st w) 0 = Some err"
          "0 < Suc fuel"
        using Tick Some by (simp_all add: result_of_0)
      ultimately show ?thesis by blast
    next
      case None
      let ?w1 = "after_ticks task 1 w"
      have step: "run_loop (Suc fuel) task sched w = run_loop fuel task sched ?w1"
        using Tick None by (rule run_loop_step)
      have shift: "after_ticks task n ?w1 = after_ticks task (Suc n) w"
          "sched (waits ?w1 + n) = sched (waits w + Suc n)"
          "result_of task (st ?w1) n = result_of task (st w) (Suc n)" for n
        using None by (simp_all add: after_ticks_Suc [symmetric] after_ticks_sel result_of_Suc)
      from Suc.IH [of ?w1] obtain n where n: "ticked task sched n ?w1"
        and ends: "n = fuel \<and> run_loop fuel task sched ?w1 = (None, after_ticks task n ?w1) \<or>
          n < fuel \<and> (\<exists>reason. sched (waits ?w1 + n) = Done reason \<and>
            run_loop fuel task sched ?w1 =
              (Some (Return (Some reason)), cancelled reason (after_ticks task n ?w1))) \<or>
          n < fuel \<and> (\<exists>err. sched (waits ?w1 + n) = Tick \<and>
            result_of task (st ?w1) n = Some err \<and>
            run_loop fuel task sched ?w1 =
              (Some (Return (Some err)), failed_tick task err (after_ticks task n ?w1)))"
        by blast
      have "ticked task sched (Suc n) w"
        using Tick None n by (rule ticked_Suc)
      moreover have "Suc n = Suc fuel \<and>
          run_loop (Suc fuel) task sched w = (None, after_ticks task (Suc n) w) \<or>
        Suc n < Suc fuel \<and> (\<exists>reason. sched (waits w + Suc n) = Done reason \<and>
          run_loop (Suc fuel) task sched w =
            (Some (Return (Some reason)), cancelled reason (after_ticks task (Suc n) w))) \<or>
        Suc n < Suc fuel \<and> (\<exists>err. sched (waits w + Suc n) = Tick \<and>
          result_of task (st w) (Suc n) = Some err \<and>
          run_loop (Suc fuel) task sched w =
            (Some (Return (Some err)), failed_tick task err (after_ticks task (Suc n) w)))"
        using ends unfolding step shift by simp
      ultimately show ?thesis by blast
    qed
  qed
qed

lemma runLimit_loop_cases:
  "\<exists>n. ticked task sched n w \<and>
     (int n = max 0 limit \<and> runLimit_loop task sched limit w = (Return None, after_ticks task n w) \<or>
      int n < limit \<and> (\<exists>reason. sched (waits w + n) = Done reason \<and>
         runLimit_loop task sched limit w =
           (Return (Some reason), cancelled reason (after_ticks task n w))) \<or>
      int n < limit \<and> (\<exists>err. sched (waits w + n) = Tick \<and> result_of task (st w) n = Some err \<and>
         runLimit_loop task sched limit w =
           (Return (Some err), failed_tick task err (after_ticks task n w))))"
proof (induction k \<equiv> "nat limit" arbitrary: limit w)
  case 0
  then have "limit \<le> 0" by simp
  then have "runLimit_loop task sched limit w = (Return None, after_ticks task 0 w)"
      "int 0 = max 0 limit"
    by (simp_all add: runLimit_loop_zero after_ticks_0)
  moreover have "ticked task sched 0 w" by (rule ticked_0)
  ultimately show ?case by blast
next
  case (Suc k)
  then have pos: "0 < limit" and k: "k = nat (limit - 1)"
    by simp_all
  show ?case
  proof (cases "sched (waits w)")
    case (Done reason)
    have "ticked task sched 0 w" by (rule ticked_0)
    moreover have "runLimit_loop task sched limit w =
        (Return (Some reason), cancelled reason (after_ticks task 0 w))"
      using pos Done by (simp add: runLimit_loop_Done after_ticks_0)
    moreover have "sched (waits w + 0) = Done reason" "int 0 < limit"
      using Done pos by simp_all
    ultimately show ?thesis by blast
  next
    case Tick
    show ?thesis
    proof (cases "fst (task (st w))")
      case (Some err)
      have "ticked task sched 0 w" by (rule ticked_0)
      moreover have "runLimit_loop task sched limit w =
          (Return (Some err), failed_tick task err (after_ticks task 0 w))"
        using pos Tick Some by (simp add: runLimit_loop_error after_ticks_0)
      moreover have "sched (waits w + 0) = Tick" "result_of task (st w) 0 = Some err"
          "int 0 < limit"
        using Tick Some pos by (simp_all add: result_of_0)
      ultimately show ?thesis by blast
    next
      case None
      let ?w1 = "after_ticks task 1 w"
      have step: "runLimit_loop task sched limit w = runLimit_loop task sched (limit - 1) ?w1"
        using pos Tick None by (rule runLimit_loop_step)
      have shift: "after_ticks task n ?w1 = after_ticks task (Suc n) w"
          "sched (waits ?w1 + n) = sched (waits w + Suc n)"
          "result_of task (st ?w1) n = result_of task (st w) (Suc n)" for n
        using None by (simp_all add: after_ticks_Suc [symmetric] after_ticks_sel result_of_Suc)
      from Suc.hyps(1) [OF k, of ?w1] obtain n where n: "ticked task sched n ?w1"
        and ends: "int n = max 0 (limit - 1) \<and>
            runLimit_loop task sched (limit - 1) ?w1 = (Return None, after_ticks task n ?w1) \<or>
          int n < limit - 1 \<and> (\<exists>reason. sched (waits ?w1 + n) = Done reason \<and>
            runLimit_loop task sched (limit - 1) ?w1 =
              (Return (Some reason), cancelled reason (after_ticks task n ?w1))) \<or>
          int n < limit - 1 \<and> (\<exists>err. sched (waits ?w1 + n) = Tick \<and>
            result_of task (st ?w1) n = Some err \<and>
            runLimit_loop task sched (limit - 1) ?w1 =
              (Return (Some err), failed_tick task err (after_ticks task n ?w1)))"
        by blast
      have "ticked task sched (Suc n) w"
        using Tick None n by (rule ticked_Suc)
      moreover have "int (Suc n) = max 0 limit \<and>
          runLimit_loop task sched limit w = (Return None, after_ticks task (Suc n) w) \<or>
        int (Suc n) < limit \<and> (\<exists>reason. sched (waits w + Suc n) = Done reason \<and>
          runLimit_loop task sched limit w =
            (Return (Some reason), cancelled reason (after_ticks task (Suc n) w))) \<or>
        int (Suc n) < limit \<and> (\<exists>err. sched (waits w + Suc n) = Tick \<and>
          result_of task (st w) (Suc n) = Some err \<and>
          runLimit_loop task sched limit w =
            (Return (Some err), failed_tick task err (after_ticks task (Suc n) w)))"
        using ends pos unfolding step shift by auto
      ultimately show ?thesis by blast
    qed
  qed
qed

lemmas world_sel = after_ticks_sel record_action_sel failed_tick_sel cancelled_sel called_sel
  start_sel

lemmas world_calls = calls_after_ticks calls_record_action calls_failed_tick calls_cancelled
  calls_called calls_start

text \<open>What a ticker phase leaves behind, whichever way its loop ends.\<close>

lemma runLimit_ticker_cases:
  assumes "0 < d"
  shows "\<exists>n w'. (\<exists>tr. trace w' = trace w @ NewTicker d # tr) \<and>
     (int n = max 0 limit \<and> runLimit_ticker task sched d limit w = (Return None, w') \<and>
        calls w' = calls w @ replicate n (Call None) \<or>
      int n < limit \<and> (\<exists>reason. runLimit_ticker task sched d limit w = (Return (Some reason), w') \<and>
        calls w' = calls w @ replicate n (Call None) \<and> Select (Done reason) \<in> set (trace w')) \<or>
      int n < limit \<and> (\<exists>err. runLimit_ticker task sched d limit w = (Return (Some err), w') \<and>
        calls w' = calls w @ replicate n (Call None) @ [Call (Some err)] \<and>
        result_of task (st w) n = Some err))"
proof -
  let ?w = "record_action (NewTicker d) w"
  let ?loop = "runLimit_loop task sched limit ?w"
  have phase: "runLimit_ticker task sched d limit w = (fst ?loop, record_action Stop (snd ?loop))"
    using assms by (simp add: runLimit_ticker_def split: prod.splits)
  from runLimit_loop_cases [of task sched ?w limit] obtain n where
    ends: "int n = max 0 limit \<and> ?loop = (Return None, after_ticks task n ?w) \<or>
      int n < limit \<and> (\<exists>reason. sched (waits ?w + n) = Done reason \<and>
        ?loop = (Return (Some reason), cancelled reason (after_ticks task n ?w))) \<or>
      int n < limit \<and> (\<exists>err. sched (waits ?w + n) = Tick \<and> result_of task (st ?w) n = Some err \<and>
        ?loop = (Return (Some err), failed_tick task err (after_ticks task n ?w)))"
    by blast
  then consider
      (exhausted) "int n = max 0 limit" "?loop = (Return None, after_ticks task n ?w)"
    | (cancelled) reason where "int n < limit"
        "?loop = (Return (Some reason), cancelled reason (after_ticks task n ?w))"
    | (failed) err where "int n < limit" "result_of task (st ?w) n = Some err"
        "?loop = (Return (Some err), failed_tick task err (after_ticks task n ?w))"
    by blast
  then show ?thesis
  proof cases
    case exhausted
    let ?w' = "record_action Stop (after_ticks task n ?w)"
    have "runLimit_ticker task sched d limit w = (Return None, ?w')"
      using exhausted(2) by (simp add: phase)
    moreover have "calls ?w' = calls w @ replicate n (Call None)"
      by (simp add: world_calls)
    moreover have "\<exists>tr. trace ?w' = trace w @ NewTicker d # tr"
      by (simp add: world_sel)
    ultimately show ?thesis using exhausted(1) by blast
  next
    case (cancelled reason)
    let ?w' = "record_action Stop (cancelled reason (after_ticks task n ?w))"
    have "runLimit_ticker task sched d limit w = (Return (Some reason), ?w')"
      using cancelled(2) by (simp add: phase)
    moreover have "calls ?w' = calls w @ replicate n (Call None)"
      by (simp add: world_calls)
    moreover have "\<exists>tr. trace ?w' = trace w @ NewTicker d # tr"
      by (simp add: world_sel)
    moreover have "Select (Done reason) \<in> set (trace ?w')"
      by (simp add: world_sel)
    ultimately show ?thesis using cancelled(1) by blast
  next
    case (failed err)
    let ?w' = "record_action Stop (failed_tick task err (after_ticks task n ?w))"
    have "runLimit_ticker task sched d limit w = (Return (Some err), ?w')"
      using failed(3) by (simp add: phase)
    moreover have "calls ?w' = calls w @ replicate n (Call None) @ [Call (Some err)]"
      by (simp add: world_calls)
    moreover have "\<exists>tr. trace ?w' = trace w @ NewTicker d # tr"
      by (simp add: world_sel)
    moreover have "result_of task (st w) n = Some err"
      using failed(2) by (simp add: world_sel)
    ultimately show ?thesis using failed(1) by blast
  qed
qed

lemma run_ticker_cases:
  assumes "0 < d"
  shows "\<exists>n w'. (\<exists>tr. trace w' = trace w @ NewTicker d # tr) \<and>
     (n = fuel \<and> run_ticker fuel task sched d w = (None, w') \<and>
        calls w' = calls w @ replicate n (Call None) \<or>
      n < fuel \<and> (\<exists>reason. run_ticker fuel task sched d w = (Some (Return (Some reason)), w') \<and>
        calls w' = calls w @ replicate n (Call None) \<and> Select (Done reason) \<in> set (trace w')) \<or>
      n < fuel \<and> (\<exists>err. run_ticker fuel task sched d w = (Some (Return (Some err)), w') \<and>
        calls w' = calls w @ replicate n (Call None) @ [Call (Some err)] \<and>
        result_of task (st w) n = Some err))"
proof -
  let ?w = "record_action (NewTicker d) w"
  let ?loop = "run_loop fuel task sched ?w"
  have phase: "run_ticker fuel task sched d w =
      (case ?loop of (None, w') \<Rightarrow> (None, w') | (Some out, w') \<Rightarrow> (Some out, record_action Stop w'))"
    using assms by (simp add: run_ticker_def)
  from run_loop_cases [of task sched ?w fuel] obtain n where
    ends: "n = fuel \<and> ?loop = (None, after_ticks task n ?w) \<or>
      n < fuel \<and> (\<exists>reason. sched (waits ?w + n) = Done reason \<and>
        ?loop = (Some (Return (Some reason)), cancelled reason (after_ticks task n ?w))) \<or>
      n < fuel \<and> (\<exists>err. sched (waits ?w + n) = Tick \<and> result_of task (st ?w) n = Some err \<and>
        ?loop = (Some (Return (Some err)), failed_tick task err (after_ticks task n ?w)))"
    by blast
  then consider
      (running) "n = fuel" "?loop = (None, after_ticks task n ?w)"
    | (cancelled) reason where "n < fuel"
        "?loop = (Some (Return (Some reason)), cancelled reason (after_ticks task n ?w))"
    | (failed) err where "n < fuel" "result_of task (st ?w) n = Some err"
        "?loop = (Some (Return (Some err)), failed_tick task err (after_ticks task n ?w))"
    by blast
  then show ?thesis
  proof cases
    case running
    let ?w' = "after_ticks task n ?w"
    have "run_ticker fuel task sched d w = (None, ?w')"
      using running(2) by (simp add: phase)
    moreover have "calls ?w' = calls w @ replicate n (Call None)"
      by (simp add: world_calls)
    moreover have "\<exists>tr. trace ?w' = trace w @ NewTicker d # tr"
      by (simp add: world_sel)
    ultimately show ?thesis using running(1) by blast
  next
    case (cancelled reason)
    let ?w' = "record_action Stop (cancelled reason (after_ticks task n ?w))"
    have "run_ticker fuel task sched d w = (Some (Return (Some reason)), ?w')"
      using cancelled(2) by (simp add: phase)
    moreover have "calls ?w' = calls w @ replicate n (Call None)"
      by (simp add: world_calls)
    moreover have "\<exists>tr. trace ?w' = trace w @ NewTicker d # tr"
      by (simp add: world_sel)
    moreover have "Select (Done reason) \<in> set (trace ?w')"
      by (simp add: world_sel)
    ultimately show ?thesis using cancelled(1) by blast
  next
    case (failed err)
    let ?w' = "record_action Stop (failed_tick task err (after_ticks task n ?w))"
    have "run_ticker fuel task sched d w = (Some (Return (Some err)), ?w')"
      using failed(3) by (simp add: phase)
    moreover have "calls ?w' = calls w @ replicate n (Call None) @ [Call (Some err)]"
      by (simp add: world_calls)
    moreover have "\<exists>tr. trace ?w' = trace w @ NewTicker d # tr"
      by (simp add: world_sel)
    moreover have "result_of task (st w) n = Some err"
      using failed(2) by (simp add: world_sel)
    ultimately show ?thesis using failed(1) by blast
  qed
qed

text \<open>
  Every run of \<open>Run\<close> with valid arguments: \<open>m\<close> successful invocations, and then the limit
  is reached, or the bound on the waits followed is, or the context is done, or one more
  invocation fails.
\<close>

lemma Run_cases:
  assumes "0 < d" and "configure options = Some c"
  shows "\<exists>m w'.
    (Limit c = int m \<and> Run fuel (Some task) sched d options (start s) = (Some (Return None), w') \<and>
       calls w' = replicate m (Call None)) \<or>
    (Limit c < 0 \<and> Run fuel (Some task) sched d options (start s) = (None, w') \<and>
       calls w' = replicate m (Call None)) \<or>
    ((Limit c < 0 \<or> int m < Limit c) \<and>
       (\<exists>reason. Run fuel (Some task) sched d options (start s) = (Some (Return (Some reason)), w') \<and>
          calls w' = replicate m (Call None) \<and> Select (Done reason) \<in> set (trace w'))) \<or>
    ((Limit c < 0 \<or> int m < Limit c) \<and>
       (\<exists>err. Run fuel (Some task) sched d options (start s) = (Some (Return (Some err)), w') \<and>
          calls w' = replicate m (Call None) @ [Call (Some err)] \<and>
          result_of task s m = Some err))"
    (is "\<exists>m w'. ?shape m w'")
proof -
  let ?w = "start s"
  let ?R = "Run fuel (Some task) sched d options ?w"
  note valid = Run_valid [OF assms, of fuel task sched ?w]
  consider (zero) "Limit c = 0"
    | (failed) err where "Limit c \<noteq> 0" "Immediate c" "fst (task s) = Some err"
    | (one) "Limit c = 1" "Immediate c" "fst (task s) = None"
    | (bounded) w1 k lim where "0 < lim" "Limit c = lim + int k" "calls w1 = replicate k (Call None)"
        "?R = (Some (fst (runLimit_ticker task sched d lim w1)),
               snd (runLimit_ticker task sched d lim w1))"
        "\<And>n. result_of task (st w1) n = result_of task s (k + n)"
    | (unbounded) w1 k where "Limit c < 0" "calls w1 = replicate k (Call None)"
        "?R = run_ticker fuel task sched d w1"
        "\<And>n. result_of task (st w1) n = result_of task s (k + n)"
  proof (cases "Limit c = 0")
    case True
    then show ?thesis by (rule zero)
  next
    case nz: False
    show ?thesis
    proof (cases "Immediate c")
      case False
      show ?thesis
      proof (cases "0 < Limit c")
        case True
        have R: "?R = (Some (fst (runLimit_ticker task sched d (Limit c) ?w)),
            snd (runLimit_ticker task sched d (Limit c) ?w))"
          using valid True False by (simp add: runLimit_eq)
        have c0: "calls ?w = replicate 0 (Call None)"
          by (simp add: world_calls)
        have r0: "result_of task (st ?w) n = result_of task s (0 + n)" for n
          by (simp add: world_sel)
        have l0: "Limit c = Limit c + int 0"
          by simp
        show ?thesis
          by (rule bounded [OF True l0 c0 R r0])
      next
        case neg: False
        have R: "?R = run_ticker fuel task sched d ?w"
          using valid neg nz False by (simp add: run_eq)
        have c0: "calls ?w = replicate 0 (Call None)"
          by (simp add: world_calls)
        have r0: "result_of task (st ?w) n = result_of task s (0 + n)" for n
          by (simp add: world_sel)
        have l0: "Limit c < 0"
          using neg nz by simp
        show ?thesis
          by (rule unbounded [OF l0 c0 R r0])
      qed
    next
      case imm: True
      show ?thesis
      proof (cases "fst (task s)")
        case (Some err)
        with nz imm show ?thesis by (rule failed)
      next
        case None
        let ?w1 = "called task ?w"
        have c1: "calls ?w1 = replicate 1 (Call None)"
          using None by (simp add: world_calls world_sel)
        have r1: "result_of task (st ?w1) n = result_of task s (1 + n)" for n
          by (simp add: world_sel result_of_Suc)
        show ?thesis
        proof (cases "Limit c = 1")
          case True
          then show ?thesis using imm None by (rule one)
        next
          case not1: False
          show ?thesis
          proof (cases "0 < Limit c")
            case True
            have R: "?R = (Some (fst (runLimit_ticker task sched d (Limit c - 1) ?w1)),
                snd (runLimit_ticker task sched d (Limit c - 1) ?w1))"
              using valid True imm None not1 by (simp add: runLimit_eq world_sel)
            have l1: "0 < Limit c - 1" and l2: "Limit c = Limit c - 1 + int 1"
              using True not1 by simp_all
            show ?thesis
              by (rule bounded [OF l1 l2 c1 R r1])
          next
            case neg: False
            have R: "?R = run_ticker fuel task sched d ?w1"
              using valid neg nz imm None by (simp add: run_eq world_sel)
            have l0: "Limit c < 0"
              using neg nz by simp
            show ?thesis
              by (rule unbounded [OF l0 c1 R r1])
          qed
        qed
      qed
    qed
  qed
  then show ?thesis
  proof cases
    case zero
    have "?R = (Some (Return None), ?w)"
      using valid zero by simp
    moreover have "calls ?w = replicate 0 (Call None)"
      by (simp add: world_calls)
    moreover have "Limit c = int 0"
      using zero by simp
    ultimately have "?shape 0 ?w" by blast
    then show ?thesis by blast
  next
    case (failed err)
    let ?w' = "called task ?w"
    have "?R = (Some (Return (Some err)), ?w')"
      using valid failed by (simp add: runLimit_eq run_eq world_sel)
    moreover have "calls ?w' = replicate 0 (Call None) @ [Call (Some err)]"
      using failed(3) by (simp add: world_calls world_sel)
    moreover have "result_of task s 0 = Some err"
      using failed(3) by (simp add: result_of_0)
    moreover have "Limit c < 0 \<or> int 0 < Limit c"
      using failed(1) by auto
    ultimately have "?shape 0 ?w'" by blast
    then show ?thesis by blast
  next
    case one
    let ?w' = "called task ?w"
    have "?R = (Some (Return None), ?w')"
      using valid one by (simp add: runLimit_eq world_sel)
    moreover have "calls ?w' = replicate 1 (Call None)"
      using one(3) by (simp add: world_calls world_sel)
    moreover have "Limit c = int 1"
      using one(1) by simp
    ultimately have "?shape 1 ?w'" by blast
    then show ?thesis by blast
  next
    case (bounded w1 k lim)
    let ?P = "runLimit_ticker task sched d lim w1"
    from runLimit_ticker_cases [OF assms(1), where limit = lim and task = task and sched = sched and w = w1] obtain n w' where
      ends: "int n = max 0 lim \<and> ?P = (Return None, w') \<and>
          calls w' = calls w1 @ replicate n (Call None) \<or>
        int n < lim \<and> (\<exists>reason. ?P = (Return (Some reason), w') \<and>
          calls w' = calls w1 @ replicate n (Call None) \<and> Select (Done reason) \<in> set (trace w')) \<or>
        int n < lim \<and> (\<exists>err. ?P = (Return (Some err), w') \<and>
          calls w' = calls w1 @ replicate n (Call None) @ [Call (Some err)] \<and>
          result_of task (st w1) n = Some err)"
      by blast
    from ends have "?shape (k + n) w'"
      unfolding bounded(4,5) using bounded(1,2)
      by (elim disjE conjE exE) (simp_all add: replicate_add bounded(3))
    then show ?thesis by blast
  next
    case (unbounded w1 k)
    let ?P = "run_ticker fuel task sched d w1"
    from run_ticker_cases [OF assms(1), where fuel = fuel and task = task and sched = sched and w = w1] obtain n w' where
      ends: "n = fuel \<and> ?P = (None, w') \<and> calls w' = calls w1 @ replicate n (Call None) \<or>
        n < fuel \<and> (\<exists>reason. ?P = (Some (Return (Some reason)), w') \<and>
          calls w' = calls w1 @ replicate n (Call None) \<and> Select (Done reason) \<in> set (trace w')) \<or>
        n < fuel \<and> (\<exists>err. ?P = (Some (Return (Some err)), w') \<and>
          calls w' = calls w1 @ replicate n (Call None) @ [Call (Some err)] \<and>
          result_of task (st w1) n = Some err)"
      by blast
    from ends have "?shape (k + n) w'"
      unfolding unbounded(3,4) using unbounded(1)
      by (elim disjE conjE exE) (simp_all add: replicate_add unbounded(2))
    then show ?thesis by blast
  qed
qed

lemma calls_subset_trace: "set (calls w) \<subseteq> set (trace w)"
  by (simp add: calls_def)

lemma Run_invalid:
  "d \<le> 0 \<Longrightarrow> Run fuel task sched d options w = (Some (Return (Some ErrNonPositiveInterval)), w)"
  "0 < d \<Longrightarrow> Run fuel None sched d options w = (Some (Return (Some ErrNilFunction)), w)"
  by (simp_all add: Run_def)

lemma Canceled_neq_DeadlineExceeded: "Canceled \<noteq> DeadlineExceeded"
  by (simp add: Canceled_def DeadlineExceeded_def errors_New_def)

lemma always_succeeds: "\<forall>s. fst (task s) = None \<Longrightarrow> result_of task s j = None"
  by (simp add: result_of_def)

lemma Run_failed:
  assumes "0 < d" and "configure options = Some c"
    and "Limit c < 0 \<or> int (Suc k) \<le> Limit c"
    and "\<forall>j<k. result_of task s j = None" and "result_of task s k = Some err"
    and "\<forall>i < (if Immediate c then k else Suc k). sched i = Tick"
    and "k < fuel"
  shows "\<exists>w'. Run fuel (Some task) sched d options (start s) = (Some (Return (Some err)), w') \<and>
    calls w' = replicate k (Call None) @ [Call (Some err)] \<and>
    invocations w' = Suc k"
proof -
  let ?w = "start s"
  let ?R = "Run fuel (Some task) sched d options ?w"
  have nz: "Limit c \<noteq> 0"
    using assms(3) by auto
  have "\<exists>w'. ?R = (Some (Return (Some err)), w') \<and>
    calls w' = replicate k (Call None) @ [Call (Some err)]"
  proof (cases "Immediate c")
    case False
    then have ticks: "\<forall>i<Suc k. sched (waits ?w + i) = Tick"
      using assms(6) by (simp add: start_sel)
    have oks: "\<forall>j<k. result_of task (st ?w) j = None"
      using assms(4) by (simp add: start_sel)
    have bad: "result_of task (st ?w) k = Some err"
      using assms(5) by (simp add: start_sel)
    let ?w' = "record_action Stop
      (failed_tick task err (after_ticks task k (record_action (NewTicker d) ?w)))"
    have c: "calls ?w' = replicate k (Call None) @ [Call (Some err)]"
      by (simp add: calls_record_action calls_failed_tick calls_after_ticks calls_start)
    show ?thesis
    proof (cases "0 < Limit c")
      case True
      then have "int k < Limit c"
        using assms(3) by auto
      then have "runLimit_ticker task sched d (Limit c) ?w = (Return (Some err), ?w')"
        using assms(1) ticks oks bad by (intro runLimit_ticker_failed)
      then have "?R = (Some (Return (Some err)), ?w')"
        using assms(1,2) True False by (simp add: Run_valid runLimit_eq)
      then show ?thesis using c by blast
    next
      case neg: False
      have "run_ticker fuel task sched d ?w = (Some (Return (Some err)), ?w')"
        using assms(1) ticks oks assms(7) bad by (intro run_ticker_failed)
      then have "?R = (Some (Return (Some err)), ?w')"
        using assms(1,2) neg nz False by (simp add: Run_valid run_eq)
      then show ?thesis using c by blast
    qed
  next
    case imm: True
    show ?thesis
    proof (cases k)
      case 0
      then have bad: "fst (task s) = Some err"
        using assms(5) by (simp add: result_of_0)
      let ?w' = "called task ?w"
      have c: "calls ?w' = replicate k (Call None) @ [Call (Some err)]"
        using 0 bad by (simp add: calls_called calls_start start_sel)
      have "?R = (Some (Return (Some err)), ?w')"
        using assms(1,2) imm nz bad by (simp add: Run_valid runLimit_eq run_eq start_sel)
      then show ?thesis using c by blast
    next
      case (Suc k')
      let ?w1 = "called task ?w"
      have ok0: "fst (task s) = None"
        using assms(4) Suc by (metis result_of_0 zero_less_Suc)
      have ticks: "\<forall>i<Suc k'. sched (waits ?w1 + i) = Tick"
        using assms(6) imm Suc by (simp add: called_sel start_sel)
      have oks: "\<forall>j<k'. result_of task (st ?w1) j = None"
      proof (intro allI impI)
        fix j assume "j < k'"
        then have "Suc j < k" using Suc by simp
        then have "result_of task s (Suc j) = None" using assms(4) by blast
        then show "result_of task (st ?w1) j = None"
          by (simp add: called_sel start_sel result_of_Suc)
      qed
      have bad: "result_of task (st ?w1) k' = Some err"
        using assms(5) Suc by (simp add: called_sel start_sel result_of_Suc)
      let ?w' = "record_action Stop
        (failed_tick task err (after_ticks task k' (record_action (NewTicker d) ?w1)))"
      have c: "calls ?w' = replicate k (Call None) @ [Call (Some err)]"
        using Suc ok0
        by (simp add: calls_record_action calls_failed_tick calls_after_ticks calls_called
            calls_start start_sel replicate_append_same)
      show ?thesis
      proof (cases "0 < Limit c")
        case True
        then have lim: "int k' < Limit c - 1" "Limit c \<noteq> 1"
          using assms(3) Suc by auto
        have "runLimit_ticker task sched d (Limit c - 1) ?w1 = (Return (Some err), ?w')"
          using assms(1) ticks oks lim(1) bad by (intro runLimit_ticker_failed)
        then have "?R = (Some (Return (Some err)), ?w')"
          using assms(1,2) True imm ok0 lim(2) by (simp add: Run_valid runLimit_eq start_sel)
        then show ?thesis using c by blast
      next
        case neg: False
        have "k' < fuel" using assms(7) Suc by simp
        then have "run_ticker fuel task sched d ?w1 = (Some (Return (Some err)), ?w')"
          using assms(1) ticks oks bad by (intro run_ticker_failed)
        then have "?R = (Some (Return (Some err)), ?w')"
          using assms(1,2) neg nz imm ok0 by (simp add: Run_valid run_eq start_sel)
        then show ?thesis using c by blast
      qed
    qed
  qed
  then show ?thesis
    by (auto simp: invocations_calls)
qed

lemma nth_successes:
  "k < m \<Longrightarrow> replicate m (Call None) ! k \<noteq> Call (Some err)"
  by simp

lemma nth_successes_error:
  assumes "k < Suc m" and "(replicate m (Call None) @ [Call (Some e)]) ! k = Call (Some err)"
  shows "k = m \<and> e = err"
proof (cases "k < m")
  case True
  then have "(replicate m (Call None) @ [Call (Some e)]) ! k = Call None"
    by (simp add: nth_append)
  then show ?thesis using assms(2) by simp
next
  case False
  then have "k = m" using assms(1) by simp
  then show ?thesis using assms(2) by (simp add: nth_append)
qed

lemma Run_error_is_last:
  assumes "0 < d" and "configure options = Some c"
    and "k < length (calls (snd (Run fuel (Some task) sched d options (start s))))"
    and "calls (snd (Run fuel (Some task) sched d options (start s))) ! k = Call (Some err)"
  shows "fst (Run fuel (Some task) sched d options (start s)) = Some (Return (Some err)) \<and>
    invocations (snd (Run fuel (Some task) sched d options (start s))) = Suc k"
proof -
  let ?R = "Run fuel (Some task) sched d options (start s)"
  from Run_cases [OF assms(1,2), of fuel task sched s]
  obtain m w' where "snd ?R = w' \<and> calls w' = replicate m (Call None) \<or>
      (\<exists>e. ?R = (Some (Return (Some e)), w') \<and>
        calls w' = replicate m (Call None) @ [Call (Some e)])"
    by fastforce
  then consider (successes) "calls (snd ?R) = replicate m (Call None)"
    | (error) e where "?R = (Some (Return (Some e)), w')"
        "calls w' = replicate m (Call None) @ [Call (Some e)]"
    by blast
  then show ?thesis
  proof cases
    case successes
    then have "k < m" using assms(3) by simp
    then show ?thesis
      using assms(4) successes nth_successes [of k m err] by simp
  next
    case (error e)
    then have c: "calls (snd ?R) = replicate m (Call None) @ [Call (Some e)]"
      by simp
    then have "k < Suc m" using assms(3) by simp
    then have "k = m \<and> e = err"
      using assms(4) c by (intro nth_successes_error) simp_all
    then show ?thesis
      using error(1) c by (simp add: invocations_calls)
  qed
qed






text \<open>The record of a loop starts with a wait, and of a ticker phase with the ticker.\<close>

lemma ticks_then_select:
  "\<exists>e' tr. concat (replicate n [Select Tick, Call None]) @ Select e # xs = Select e' # tr"
  by (cases n) simp_all

lemma ticks_nonempty:
  "0 < n \<Longrightarrow> \<exists>e' tr. concat (replicate n [Select Tick, Call None]) @ xs = Select e' # tr"
  by (cases n) simp_all

lemma runLimit_loop_trace:
  assumes "0 < limit"
  shows "\<exists>e tr. trace (snd (runLimit_loop task sched limit w)) = trace w @ Select e # tr"
proof -
  let ?loop = "runLimit_loop task sched limit w"
  from runLimit_loop_cases [of task sched w limit] obtain n where
    "int n = max 0 limit \<and> ?loop = (Return None, after_ticks task n w) \<or>
      (\<exists>reason. ?loop = (Return (Some reason), cancelled reason (after_ticks task n w))) \<or>
      (\<exists>err. ?loop = (Return (Some err), failed_tick task err (after_ticks task n w)))"
    by blast
  then consider
      (exhausted) "int n = max 0 limit" "?loop = (Return None, after_ticks task n w)"
    | (cancelled) reason where
        "?loop = (Return (Some reason), cancelled reason (after_ticks task n w))"
    | (failed) err where
        "?loop = (Return (Some err), failed_tick task err (after_ticks task n w))"
    by blast
  then show ?thesis
  proof cases
    case exhausted
    then have "0 < n" using assms by simp
    then obtain e tr where "concat (replicate n [Select Tick, Call None]) @ [] = Select e # tr"
      using ticks_nonempty by blast
    then show ?thesis
      using exhausted(2) by (simp add: world_sel)
  next
    case (cancelled reason)
    obtain e tr where
      "concat (replicate n [Select Tick, Call None]) @ Select (Done reason) # [] = Select e # tr"
      using ticks_then_select by blast
    then show ?thesis
      using cancelled by (simp add: world_sel)
  next
    case (failed err)
    obtain e tr where
      "concat (replicate n [Select Tick, Call None]) @ Select Tick # [Call (Some err)] =
        Select e # tr"
      using ticks_then_select by blast
    then show ?thesis
      using failed by (simp add: world_sel)
  qed
qed

lemma run_loop_trace:
  assumes "0 < fuel"
  shows "\<exists>e tr. trace (snd (run_loop fuel task sched w)) = trace w @ Select e # tr"
proof -
  let ?loop = "run_loop fuel task sched w"
  from run_loop_cases [of task sched w fuel] obtain n where
    "n = fuel \<and> ?loop = (None, after_ticks task n w) \<or>
      (\<exists>reason. ?loop = (Some (Return (Some reason)), cancelled reason (after_ticks task n w))) \<or>
      (\<exists>err. ?loop = (Some (Return (Some err)), failed_tick task err (after_ticks task n w)))"
    by blast
  then consider
      (running) "n = fuel" "?loop = (None, after_ticks task n w)"
    | (cancelled) reason where
        "?loop = (Some (Return (Some reason)), cancelled reason (after_ticks task n w))"
    | (failed) err where
        "?loop = (Some (Return (Some err)), failed_tick task err (after_ticks task n w))"
    by blast
  then show ?thesis
  proof cases
    case running
    then have "0 < n" using assms by simp
    then obtain e tr where "concat (replicate n [Select Tick, Call None]) @ [] = Select e # tr"
      using ticks_nonempty by blast
    then show ?thesis
      using running(2) by (simp add: world_sel)
  next
    case (cancelled reason)
    obtain e tr where
      "concat (replicate n [Select Tick, Call None]) @ Select (Done reason) # [] = Select e # tr"
      using ticks_then_select by blast
    then show ?thesis
      using cancelled by (simp add: world_sel)
  next
    case (failed err)
    obtain e tr where
      "concat (replicate n [Select Tick, Call None]) @ Select Tick # [Call (Some err)] =
        Select e # tr"
      using ticks_then_select by blast
    then show ?thesis
      using failed by (simp add: world_sel)
  qed
qed

lemma runLimit_ticker_trace:
  assumes "0 < d" and "0 < limit"
  shows "\<exists>e tr. trace (snd (runLimit_ticker task sched d limit w)) =
    trace w @ NewTicker d # Select e # tr"
proof -
  let ?w = "record_action (NewTicker d) w"
  obtain e tr where "trace (snd (runLimit_loop task sched limit ?w)) = trace ?w @ Select e # tr"
    using runLimit_loop_trace [OF assms(2)] by blast
  then have "trace (snd (runLimit_ticker task sched d limit w)) =
      trace w @ NewTicker d # Select e # (tr @ [Stop])"
    using assms(1)
    by (cases "runLimit_loop task sched limit ?w") (simp add: runLimit_ticker_def world_sel)
  then show ?thesis by blast
qed

lemma run_ticker_trace:
  assumes "0 < d"
  shows "\<exists>tr. trace (snd (run_ticker fuel task sched d w)) = trace w @ NewTicker d # tr \<and>
    (tr = [] \<or> (\<exists>e tr'. tr = Select e # tr'))"
proof (cases fuel)
  case 0
  then have "trace (snd (run_ticker fuel task sched d w)) = trace w @ NewTicker d # []"
    using assms by (simp add: run_ticker_def world_sel)
  then show ?thesis by blast
next
  case (Suc fuel')
  let ?w = "record_action (NewTicker d) w"
  let ?loop = "run_loop fuel task sched ?w"
  obtain e tr where tr: "trace (snd ?loop) = trace ?w @ Select e # tr"
    using run_loop_trace [of fuel] Suc by blast
  have "trace (snd (run_ticker fuel task sched d w)) = trace w @ NewTicker d # Select e # tr \<or>
      trace (snd (run_ticker fuel task sched d w)) =
        trace w @ NewTicker d # Select e # (tr @ [Stop])"
    using assms tr by (cases ?loop; cases "fst ?loop") (simp_all add: run_ticker_def world_sel)
  then show ?thesis by blast
qed

text \<open>With valid arguments, an error that \<open>Run\<close> returns comes from the task or from the context.\<close>

lemma Run_error_origin:
  assumes "0 < d" and "configure options = Some c"
    and "Run fuel (Some task) sched d options (start s) = (Some (Return (Some err)), w')"
  shows "Call (Some err) \<in> set (trace w') \<or> Select (Done err) \<in> set (trace w')"
proof -
  from Run_cases [OF assms(1,2), of fuel task sched s] assms(3)
  have "Call (Some err) \<in> set (calls w') \<or> Select (Done err) \<in> set (trace w')"
    by auto
  then show ?thesis
    using calls_subset_trace [of w'] by auto
qed

section \<open>The error taxonomy\<close>

text \<open>
  Claim C9, as amended. Both validation errors, \<open>ErrNonPositiveInterval\<close> and
  \<open>ErrNilFunction\<close>, are subkinds of the base error \<open>ErrInvalidArgument\<close>: \<open>errors.Is\<close> of
  either against the base error succeeds, although neither is the base error itself. The
  two reasons a context reports, \<open>context.Canceled\<close> and \<open>context.DeadlineExceeded\<close>, are
  not of that kind, so the comparison tells a bad call from a cancellation. It tells a bad
  call from a failure of the task only as far as the task's own errors go: with valid
  arguments every error that \<open>Run\<close> returns is one that an invocation of the task returned
  or the reason of the context, passed on as it is, whatever its kind.
\<close>

theorem validation_errors_are_ErrInvalidArgument:
  "errors_Is ErrNonPositiveInterval ErrInvalidArgument \<and>
   errors_Is ErrNilFunction ErrInvalidArgument \<and>
   ErrNonPositiveInterval \<noteq> ErrInvalidArgument \<and>
   ErrNilFunction \<noteq> ErrInvalidArgument \<and>
   \<not> errors_Is Canceled ErrInvalidArgument \<and>
   \<not> errors_Is DeadlineExceeded ErrInvalidArgument \<and>
   (0 < d \<and> configure options = Some c \<and>
    Run fuel (Some task) sched d options (start s) = (Some (Return (Some err)), w') \<longrightarrow>
      Call (Some err) \<in> set (trace w') \<or> Select (Done err) \<in> set (trace w'))"
proof -
  have "errors_Is ErrNonPositiveInterval ErrInvalidArgument \<and>
      errors_Is ErrNilFunction ErrInvalidArgument \<and>
      ErrNonPositiveInterval \<noteq> ErrInvalidArgument \<and>
      ErrNilFunction \<noteq> ErrInvalidArgument \<and>
      \<not> errors_Is Canceled ErrInvalidArgument \<and>
      \<not> errors_Is DeadlineExceeded ErrInvalidArgument"
    by (simp add: ErrNonPositiveInterval_def ErrNilFunction_def Errorf_w_def
        ErrInvalidArgument_def errors_New_def Canceled_def DeadlineExceeded_def)
  then show ?thesis
    using Run_error_origin [of d options c fuel task sched s err w'] by blast
qed

theorem validation_errors_are_ErrInvalidArgument_witness:
  "fst (Run 4 (Some (fail_after 1 (ErrorString ''boom''))) always_tick 10 [WithLimit 2] (start 0)) =
     Some (Return (Some (ErrorString ''boom''))) \<and>
   (Call (Some (ErrorString ''boom'')) \<in> set (trace (snd
      (Run 4 (Some (fail_after 1 (ErrorString ''boom''))) always_tick 10 [WithLimit 2] (start 0)))) \<or>
    Select (Done (ErrorString ''boom'')) \<in> set (trace (snd
      (Run 4 (Some (fail_after 1 (ErrorString ''boom''))) always_tick 10 [WithLimit 2] (start 0)))))"
proof -
  let ?R = "Run 4 (Some (fail_after 1 (ErrorString ''boom''))) always_tick 10 [WithLimit 2] (start 0)"
  have d: "(0::int) < 10" by simp
  have c: "configure [WithLimit 2] = Some \<lparr>Immediate = False, Limit = 2\<rparr>"
    by (simp add: configure_def WithLimit_def)
  have out: "fst ?R = Some (Return (Some (ErrorString ''boom'')))"
    by code_simp
  then have r: "?R = (Some (Return (Some (ErrorString ''boom''))), snd ?R)"
    by (cases ?R) simp
  from validation_errors_are_ErrInvalidArgument
    [of 10 "[WithLimit 2]" "\<lparr>Immediate = False, Limit = 2\<rparr>" 4
      "fail_after 1 (ErrorString ''boom'')" always_tick 0 "ErrorString ''boom''" "snd ?R"]
    d c r
  have "Call (Some (ErrorString ''boom'')) \<in> set (trace (snd ?R)) \<or>
      Select (Done (ErrorString ''boom'')) \<in> set (trace (snd ?R))"
    by blast
  then show ?thesis
    using out by blast
qed

text \<open>
  The claim as it stands, that the comparison tells a bad call from a failure of the task,
  fails: the arguments of this call are valid, the task fails with \<open>ErrNilFunction\<close> (as it
  does when it passes on the error of a \<open>Run\<close> of its own), \<open>Run\<close> returns that error as it
  is, and the comparison with \<open>ErrInvalidArgument\<close> succeeds.
\<close>

theorem task_error_of_kind_ErrInvalidArgument_counterexample:
  "fst (Run 0 (Some (fail_after 0 ErrNilFunction)) always_tick 1000 [WithImmediate True] (start 0)) =
     Some (Return (Some ErrNilFunction)) \<and>
   calls (snd (Run 0 (Some (fail_after 0 ErrNilFunction)) always_tick 1000 [WithImmediate True]
     (start 0))) = [Call (Some ErrNilFunction)] \<and>
   errors_Is ErrNilFunction ErrInvalidArgument"
  by code_simp

section \<open>Validation of the arguments\<close>

text \<open>
  Claim C2. For every interval \<open>d \<le> 0\<close>, every task (nil too) and every list of options,
  \<open>Run\<close> returns \<open>ErrNonPositiveInterval\<close>; for a nil task and \<open>0 < d\<close> it returns
  \<open>ErrNilFunction\<close>. In both cases the world is the one \<open>Run\<close> started in: no invocation, no
  ticker. The options are applied after the checks only: a list with a nil option, whose
  application panics once the arguments are valid, gives the same results. The interval is
  checked first: a nil task with \<open>d \<le> 0\<close> gives \<open>ErrNonPositiveInterval\<close>, which is another
  error than \<open>ErrNilFunction\<close>.
\<close>

theorem Run_validates_arguments_first:
  "(d \<le> 0 \<longrightarrow>
      Run fuel task sched d options w = (Some (Return (Some ErrNonPositiveInterval)), w)) \<and>
   (0 < d \<longrightarrow>
      Run fuel None sched d options w = (Some (Return (Some ErrNilFunction)), w)) \<and>
   (0 < d \<and> configure options = None \<longrightarrow>
      Run fuel (Some f) sched d options w = (Some Panic, w)) \<and>
   ErrNonPositiveInterval \<noteq> ErrNilFunction"
  by (simp add: Run_def ErrNonPositiveInterval_def ErrNilFunction_def Errorf_w_def)

theorem Run_validates_arguments_first_witness:
  "Run 0 None always_tick (- 5) [nil_Option, WithImmediate True] (start (0::nat)) =
     (Some (Return (Some ErrNonPositiveInterval)), start 0) \<and>
   Run 0 (Some ok_task) always_tick 0 [WithLimit 3] (start 0) =
     (Some (Return (Some ErrNonPositiveInterval)), start 0) \<and>
   Run 0 None always_tick 1 [nil_Option, WithImmediate True] (start (0::nat)) =
     (Some (Return (Some ErrNilFunction)), start 0) \<and>
   Run 0 (Some ok_task) always_tick 1 [nil_Option, WithImmediate True] (start 0) =
     (Some Panic, start 0)"
proof -
  have nil: "configure [nil_Option, WithImmediate True] = None"
    by (simp add: configure_def)
  show ?thesis
    using nil
      Run_validates_arguments_first
        [of "- 5" 0 None always_tick "[nil_Option, WithImmediate True]" "start (0::nat)"]
      Run_validates_arguments_first
        [of 0 0 "Some ok_task" always_tick "[WithLimit 3]" "start 0"]
      Run_validates_arguments_first
        [of 1 0 "Some ok_task" always_tick "[nil_Option, WithImmediate True]" "start (0::nat)"
          ok_task]
    by simp
qed

text \<open>
  Claim C8. \<open>New(op)\<close> is nil exactly when \<open>op\<close> is nil. \<open>New\<close> has no error to return; the
  nil task is rejected later, by \<open>Run\<close>, with \<open>ErrNilFunction\<close> (the interval being valid).
\<close>

theorem New_nil_iff_nil:
  "(New op = None \<longleftrightarrow> op = None) \<and>
   (0 < d \<longrightarrow>
      Run fuel (New None) sched d options w = (Some (Return (Some ErrNilFunction)), w))"
  by (simp add: New_def Run_def)

theorem New_nil_iff_nil_witness:
  "New (None :: nat func option) = None \<and> New (Some ok_task) \<noteq> None \<and>
   Run 0 (New None) always_tick 1 [WithImmediate True] (start (0::nat)) =
     (Some (Return (Some ErrNilFunction)), start 0)"
proof -
  have pos: "(0::int) < 1" by simp
  note nil = New_nil_iff_nil
    [of "None :: nat func option" 1 0 always_tick "[WithImmediate True]" "start (0::nat)"]
  note fn = New_nil_iff_nil [of "Some ok_task" 1 0 always_tick "[]" "start (0::nat)"]
  from nil have "New (None :: nat func option) = None" by blast
  moreover from fn have "New (Some ok_task) \<noteq> None" by blast
  moreover from nil pos
  have "Run 0 (New None) always_tick 1 [WithImmediate True] (start (0::nat)) =
     (Some (Return (Some ErrNilFunction)), start 0)" by blast
  ultimately show ?thesis by blast
qed

section \<open>The limit zero\<close>

text \<open>
  Claim C5. For every task, every interval \<open>0 < d\<close> and every list of options whose
  configuration has the limit 0, \<open>Run\<close> returns nil at once, in the world it started in: the
  task is never invoked, whatever \<open>Immediate\<close> is.
\<close>

theorem Run_limit_zero_never_invokes:
  "0 < d \<Longrightarrow> configure options = Some c \<Longrightarrow> Limit c = 0 \<Longrightarrow>
   Run fuel (Some task) sched d options w = (Some (Return None), w)"
  by (simp add: Run_def)

theorem Run_limit_zero_never_invokes_witness:
  "Run 0 (Some ok_task) always_tick 1 [WithLimit 0, WithImmediate True] (start 0) =
     (Some (Return None), start 0)"
proof -
  have "configure [WithLimit 0, WithImmediate True] = Some \<lparr>Immediate = True, Limit = 0\<rparr>"
    by (simp add: configure_def WithLimit_def WithImmediate_def)
  then show ?thesis
    using Run_limit_zero_never_invokes
      [of 1 "[WithLimit 0, WithImmediate True]" "\<lparr>Immediate = True, Limit = 0\<rparr>"
        0 ok_task always_tick "start 0"]
    by simp
qed

section \<open>Reaching the limit\<close>

text \<open>
  Claim C1, as amended. For every limit \<open>n > 0\<close> set by the options and a task that always
  succeeds, if each of the waits before the \<open>n\<close>-th invocation receives a tick (\<open>n\<close> waits,
  or \<open>n - 1\<close> with \<open>Immediate\<close>), then \<open>Run\<close> makes exactly \<open>n\<close> invocations, the immediate
  one counting, and returns nil. It makes no wait after the \<open>n\<close>-th invocation, so the
  result does not depend on what the schedule holds from there on, a context that is done
  at that moment included.
\<close>

theorem Run_limit_reached:
  assumes "0 < d" and "configure options = Some c" and "Limit c = n" and "0 < n"
    and "\<forall>s. fst (task s) = None"
    and "m = (if Immediate c then nat n - 1 else nat n)"
    and "\<forall>i<m. sched i = Tick"
  shows "\<exists>w'. Run fuel (Some task) sched d options (start s) = (Some (Return None), w') \<and>
    int (invocations w') = n \<and> waits w' = m"
proof -
  let ?w = "start s"
  let ?R = "Run fuel (Some task) sched d options ?w"
  note valid = Run_valid [OF assms(1,2), of fuel task sched ?w]
  have pos: "0 < Limit c"
    using assms(3,4) by simp
  show ?thesis
  proof (cases "Immediate c \<and> n = 1")
    case True
    let ?w' = "called task ?w"
    have "?R = (Some (Return None), ?w')"
      using valid True assms(3,5) by (simp add: runLimit_eq world_sel)
    moreover have "int (invocations ?w') = n" "waits ?w' = m"
      using True assms(6) by (simp_all add: invocations_calls world_calls world_sel)
    ultimately show ?thesis by blast
  next
    case False
    define w0 where "w0 = (if Immediate c then called task ?w else ?w)"
    let ?w' = "record_action Stop (after_ticks task m (record_action (NewTicker d) w0))"
    have w0: "waits w0 = 0" "int (length (calls w0)) + int m = n"
      using assms(4,6) by (auto simp: w0_def world_sel world_calls)
    have ticks: "\<forall>i<m. sched (waits w0 + i) = Tick"
      using assms(7) w0(1) by simp
    have oks: "\<forall>j<m. result_of task (st w0) j = None"
      using assms(5) by (simp add: always_succeeds)
    have lim: "(if Immediate c then Limit c - 1 else Limit c) = int m"
      using assms(3,4,6) by auto
    have "runLimit_ticker task sched d (if Immediate c then Limit c - 1 else Limit c) w0 =
        (Return None, ?w')"
      using assms(1) ticks oks lim by (rule runLimit_ticker_exhausted)
    then have "?R = (Some (Return None), ?w')"
      using valid pos False assms(3,5) by (auto simp: runLimit_eq w0_def world_sel)
    moreover have "int (invocations ?w') = n"
      using w0(2) by (simp add: invocations_calls world_calls)
    moreover have "waits ?w' = m"
      by (simp add: world_sel w0(1))
    ultimately show ?thesis by blast
  qed
qed

theorem Run_limit_reached_witness:
  "\<exists>w'. Run 0 (Some ok_task) (done_from 2 Canceled) 1000 [WithLimit 3, WithImmediate True]
       (start 0) = (Some (Return None), w') \<and>
     int (invocations w') = 3 \<and> waits w' = 2 \<and>
     trace w' =
       [Call None, NewTicker 1000, Select Tick, Call None, Select Tick, Call None, Stop]"
proof -
  have c: "configure [WithLimit 3, WithImmediate True] = Some \<lparr>Immediate = True, Limit = 3\<rparr>"
    by (simp add: configure_def WithLimit_def WithImmediate_def)
  have ok: "\<forall>s. fst (ok_task s) = None"
    by (simp add: ok_task_def)
  have ticks: "\<forall>i<2. done_from 2 Canceled i = Tick"
    by (simp add: done_from_def)
  have "\<exists>w'. Run 0 (Some ok_task) (done_from 2 Canceled) 1000
      [WithLimit 3, WithImmediate True] (start 0) = (Some (Return None), w') \<and>
      int (invocations w') = 3 \<and> waits w' = 2"
    using Run_limit_reached [OF _ c _ _ ok _ ticks, of 1000 3 0 0] by simp
  then obtain w' where w': "Run 0 (Some ok_task) (done_from 2 Canceled) 1000
      [WithLimit 3, WithImmediate True] (start 0) = (Some (Return None), w')"
      "int (invocations w') = 3" "waits w' = 2"
    by blast
  have "trace (snd (Run 0 (Some ok_task) (done_from 2 Canceled) 1000
      [WithLimit 3, WithImmediate True] (start 0))) =
      [Call None, NewTicker 1000, Select Tick, Call None, Select Tick, Call None, Stop]"
    by code_simp
  then have "trace w' =
      [Call None, NewTicker 1000, Select Tick, Call None, Select Tick, Call None, Stop]"
    by (simp add: w'(1))
  then show ?thesis
    using w' by blast
qed

text \<open>
  The claim without the condition on the waits fails: with the limit 1 and a context that
  is done at the first wait, \<open>Run\<close> returns the reason of the context and the task, which
  would have succeeded, is never invoked.
\<close>

theorem Run_limit_cancelled_early_counterexample:
  "fst (Run 0 (Some ok_task) (done_from 0 Canceled) 1000000000 [WithLimit 1] (start 0)) =
     Some (Return (Some Canceled)) \<and>
   invocations (snd (Run 0 (Some ok_task) (done_from 0 Canceled) 1000000000 [WithLimit 1] (start 0))) = 0"
  by code_simp

section \<open>Failure of the task\<close>

text \<open>
  Claim C3. In every run with valid arguments, whatever the configuration, the schedule
  and the bound on the waits: if an invocation of the task returned the error \<open>err\<close>, then
  \<open>Run\<close> returned exactly \<open>err\<close> and that invocation is the last one. And the invocation
  number \<open>k + 1\<close> does happen and fail, so that \<open>Run\<close> returns \<open>err\<close> after exactly
  \<open>k + 1\<close> invocations, whenever the task succeeds \<open>k\<close> times and then returns \<open>err\<close>, the
  waits before that invocation receive ticks and the limit is negative or at least
  \<open>k + 1\<close>; with \<open>Immediate\<close> and \<open>k = 0\<close> this is the immediate invocation.
\<close>

theorem Run_returns_task_error:
  assumes "0 < d" and "configure options = Some c"
  shows "(k < length (calls (snd (Run fuel (Some task) sched d options (start s)))) \<and>
      calls (snd (Run fuel (Some task) sched d options (start s))) ! k = Call (Some err) \<longrightarrow>
      fst (Run fuel (Some task) sched d options (start s)) = Some (Return (Some err)) \<and>
      invocations (snd (Run fuel (Some task) sched d options (start s))) = Suc k) \<and>
    ((Limit c < 0 \<or> int (Suc k) \<le> Limit c) \<and>
      (\<forall>j<k. result_of task s j = None) \<and> result_of task s k = Some err \<and>
      (\<forall>i < (if Immediate c then k else Suc k). sched i = Tick) \<and> k < fuel \<longrightarrow>
      (\<exists>w'. Run fuel (Some task) sched d options (start s) = (Some (Return (Some err)), w') \<and>
         calls w' = replicate k (Call None) @ [Call (Some err)] \<and>
         invocations w' = Suc k))"
proof (intro conjI impI)
  assume "k < length (calls (snd (Run fuel (Some task) sched d options (start s)))) \<and>
    calls (snd (Run fuel (Some task) sched d options (start s))) ! k = Call (Some err)"
  then show "fst (Run fuel (Some task) sched d options (start s)) = Some (Return (Some err))"
    and "invocations (snd (Run fuel (Some task) sched d options (start s))) = Suc k"
    using Run_error_is_last [OF assms, of k fuel task sched s err] by simp_all
next
  assume "(Limit c < 0 \<or> int (Suc k) \<le> Limit c) \<and>
    (\<forall>j<k. result_of task s j = None) \<and> result_of task s k = Some err \<and>
    (\<forall>i < (if Immediate c then k else Suc k). sched i = Tick) \<and> k < fuel"
  then show "\<exists>w'. Run fuel (Some task) sched d options (start s) = (Some (Return (Some err)), w') \<and>
    calls w' = replicate k (Call None) @ [Call (Some err)] \<and> invocations w' = Suc k"
    using Run_failed [OF assms, of k task s err sched fuel] by blast
qed

theorem Run_returns_task_error_witness:
  "\<exists>w'. Run 5 (Some (fail_after 1 (ErrorString ''boom''))) always_tick 100
       [WithImmediate True] (start 0) = (Some (Return (Some (ErrorString ''boom''))), w') \<and>
     calls w' = [Call None, Call (Some (ErrorString ''boom''))] \<and>
     invocations w' = 2 \<and>
     fst (Run 5 (Some (fail_after 1 (ErrorString ''boom''))) always_tick 100
       [WithLimit 4] (start 0)) = Some (Return (Some (ErrorString ''boom''))) \<and>
     invocations (snd (Run 5 (Some (fail_after 1 (ErrorString ''boom''))) always_tick 100
       [WithLimit 4] (start 0))) = 2"
proof -
  let ?task = "fail_after 1 (ErrorString ''boom'')"
  have d: "(0::int) < 100" by simp
  have c: "configure [WithImmediate True] = Some \<lparr>Immediate = True, Limit = - 1\<rparr>"
    by (simp add: configure_def WithImmediate_def)
  have c': "configure [WithLimit 4] = Some \<lparr>Immediate = False, Limit = 4\<rparr>"
    by (simp add: configure_def WithLimit_def)
  have run: "(Limit \<lparr>Immediate = True, Limit = - 1\<rparr> < 0 \<or>
        int (Suc 1) \<le> Limit \<lparr>Immediate = True, Limit = - 1\<rparr>) \<and>
      (\<forall>j<1. result_of ?task 0 j = None) \<and>
      result_of ?task 0 1 = Some (ErrorString ''boom'') \<and>
      (\<forall>i < (if Immediate \<lparr>Immediate = True, Limit = - 1\<rparr> then 1 else Suc 1).
         always_tick i = Tick) \<and> 1 < (5::nat)"
    by (simp add: result_of_def fail_after_def always_tick_def)
  have seen: "1 < length (calls (snd (Run 5 (Some ?task) always_tick 100 [WithLimit 4] (start 0)))) \<and>
      calls (snd (Run 5 (Some ?task) always_tick 100 [WithLimit 4] (start 0))) ! 1 =
        Call (Some (ErrorString ''boom''))"
    by code_simp
  from Run_returns_task_error [OF d c, of 1 5 ?task always_tick 0 "ErrorString ''boom''"] run
  have "\<exists>w'. Run 5 (Some ?task) always_tick 100 [WithImmediate True] (start 0) =
      (Some (Return (Some (ErrorString ''boom''))), w') \<and>
      calls w' = replicate 1 (Call None) @ [Call (Some (ErrorString ''boom''))] \<and>
      invocations w' = Suc 1"
    by blast
  moreover
  from Run_returns_task_error [OF d c', of 1 5 ?task always_tick 0 "ErrorString ''boom''"] seen
  have "fst (Run 5 (Some ?task) always_tick 100 [WithLimit 4] (start 0)) =
      Some (Return (Some (ErrorString ''boom''))) \<and>
      invocations (snd (Run 5 (Some ?task) always_tick 100 [WithLimit 4] (start 0))) = Suc 1"
    by blast
  ultimately show ?thesis
    by (simp add: numeral_2_eq_2)
qed

section \<open>Cancellation\<close>

text \<open>
  Claim C4. When the run reaches its wait number \<open>m\<close> (the waits before it received ticks,
  the invocations made so far succeeded, the limit is not used up) and this wait finds the
  context done, \<open>Run\<close> returns the reason of the context as it is, so that
  \<open>context.Canceled\<close> and \<open>context.DeadlineExceeded\<close> stay apart. The invocations made
  before are all in the record of the run and none follows: the run ends with this wait and
  the stop of the ticker.
\<close>

theorem Run_returns_cancellation_reason:
  assumes "0 < d" and "configure options = Some c"
    and "\<forall>i<m. sched i = Tick" and "sched m = Done reason"
    and "n = (if Immediate c then Suc m else m)"
    and "\<forall>j<n. result_of task s j = None"
    and "Limit c < 0 \<or> int n < Limit c"
    and "m < fuel"
  shows "(\<exists>w'. Run fuel (Some task) sched d options (start s) = (Some (Return (Some reason)), w') \<and>
      calls w' = replicate n (Call None) \<and> invocations w' = n \<and> waits w' = Suc m \<and>
      (\<exists>tr. trace w' = tr @ [Select (Done reason), Stop])) \<and>
    Canceled \<noteq> DeadlineExceeded"
proof -
  let ?w = "start s"
  let ?R = "Run fuel (Some task) sched d options ?w"
  note valid = Run_valid [OF assms(1,2), of fuel task sched ?w]
  have nz: "Limit c \<noteq> 0"
    using assms(7) by auto
  define w0 where "w0 = (if Immediate c then called task ?w else ?w)"
  define lim where "lim = (if Immediate c then Limit c - 1 else Limit c)"
  let ?w' = "record_action Stop (cancelled reason (after_ticks task m (record_action (NewTicker d) w0)))"
  have ok0: "fst (task s) = None" if "Immediate c"
    using assms(5,6) that by (metis result_of_0 zero_less_Suc)
  have w0: "waits w0 = 0" "calls w0 = replicate (n - m) (Call None)"
    using assms(5) ok0 by (auto simp: w0_def world_sel world_calls)
  have ticks: "\<forall>i<m. sched (waits w0 + i) = Tick" and cancel: "sched (waits w0 + m) = Done reason"
    using assms(3,4) w0(1) by simp_all
  have oks: "\<forall>j<m. result_of task (st w0) j = None"
  proof (intro allI impI)
    fix j assume j: "j < m"
    show "result_of task (st w0) j = None"
    proof (cases "Immediate c")
      case True
      then have "Suc j < n" using j assms(5) by simp
      then have "result_of task s (Suc j) = None" using assms(6) by blast
      then show ?thesis using True by (simp add: w0_def world_sel result_of_Suc)
    next
      case False
      then have "j < n" using j assms(5) by simp
      then have "result_of task s j = None" using assms(6) by blast
      then show ?thesis using False by (simp add: w0_def world_sel)
    qed
  qed
  have R: "?R = (Some (Return (Some reason)), ?w')"
  proof (cases "0 < Limit c")
    case True
    then have lim: "int m < lim" "Limit c \<noteq> 1 \<or> \<not> Immediate c"
      using assms(5,7) by (auto simp: lim_def)
    have "runLimit_ticker task sched d lim w0 = (Return (Some reason), ?w')"
      using assms(1) ticks oks lim(1) cancel by (rule runLimit_ticker_cancelled)
    then show ?thesis
      using valid True lim(2) ok0 by (auto simp: runLimit_eq w0_def lim_def world_sel)
  next
    case False
    have "run_ticker fuel task sched d w0 = (Some (Return (Some reason)), ?w')"
      using assms(1) ticks oks assms(8) cancel by (rule run_ticker_cancelled)
    then show ?thesis
      using valid False nz ok0 by (auto simp: run_eq w0_def world_sel)
  qed
  have c: "calls ?w' = replicate n (Call None)"
    using assms(5) by (auto simp: world_calls w0(2) replicate_append_same)
  have "waits ?w' = Suc m"
    by (simp add: world_sel w0(1))
  moreover have "\<exists>tr. trace ?w' = tr @ [Select (Done reason), Stop]"
    by (simp add: world_sel)
  ultimately show ?thesis
    using R c by (simp add: invocations_calls Canceled_neq_DeadlineExceeded)
qed

theorem Run_returns_cancellation_reason_witness:
  "\<exists>w'. Run 5 (Some ok_task) (done_from 2 Canceled) 10 [] (start 0) =
       (Some (Return (Some Canceled)), w') \<and>
     calls w' = [Call None, Call None] \<and> invocations w' = 2 \<and> waits w' = 3 \<and>
     (\<exists>tr. trace w' = tr @ [Select (Done Canceled), Stop])"
proof -
  have c: "configure [] = Some \<lparr>Immediate = False, Limit = - 1\<rparr>"
    by (simp add: configure_def)
  have ticks: "\<forall>i<2. done_from 2 Canceled i = Tick"
    by (simp add: done_from_def)
  have cancel: "done_from 2 Canceled 2 = Done Canceled"
    by (simp add: done_from_def)
  have oks: "\<forall>j<2. result_of ok_task 0 j = None"
    by (simp add: result_of_def ok_task_def)
  from Run_returns_cancellation_reason [OF _ c ticks cancel _ oks, of 10 5, THEN conjunct1]
  have "\<exists>w'. Run 5 (Some ok_task) (done_from 2 Canceled) 10 [] (start 0) =
      (Some (Return (Some Canceled)), w') \<and>
      calls w' = replicate 2 (Call None) \<and> invocations w' = 2 \<and> waits w' = Suc 2 \<and>
      (\<exists>tr. trace w' = tr @ [Select (Done Canceled), Stop])"
    by simp
  then show ?thesis
    by (simp add: numeral_2_eq_2 numeral_3_eq_3)
qed

section \<open>The immediate invocation\<close>

text \<open>
  Claim C6. With \<open>Immediate\<close> set, a limit other than 0 and valid arguments, the run starts
  with one invocation of the task and no more: what follows it is nothing or the creation
  of the ticker, and what follows the ticker is nothing or a wait, so no second invocation
  comes before a wait. If the invocation fails, \<open>Run\<close> returns its error and the run is this
  invocation alone. In the bounded variant it counts against the limit: with the limit 1
  and a successful invocation \<open>Run\<close> returns nil and the run is again this invocation
  alone, and with any positive limit the invocations of the run, this one included, are at
  most the limit.
\<close>

theorem Run_immediate_first:
  assumes "0 < d" and "configure options = Some c" and "Immediate c" and "Limit c \<noteq> 0"
  shows "(\<exists>rest. trace (snd (Run fuel (Some task) sched d options (start s))) =
            Call (fst (task s)) # rest \<and>
          (rest = [] \<or> (\<exists>rest'. rest = NewTicker d # rest'))) \<and>
    (fst (task s) = None \<and> Limit c \<noteq> 1 \<longrightarrow>
       (\<exists>rest. trace (snd (Run fuel (Some task) sched d options (start s))) =
            Call None # NewTicker d # rest \<and>
          (rest = [] \<or> (\<exists>e rest'. rest = Select e # rest')))) \<and>
    (\<forall>err. fst (task s) = Some err \<longrightarrow>
       Run fuel (Some task) sched d options (start s) =
         (Some (Return (Some err)), \<lparr>st = snd (task s), trace = [Call (Some err)], waits = 0\<rparr>)) \<and>
    (fst (task s) = None \<and> Limit c = 1 \<longrightarrow>
       Run fuel (Some task) sched d options (start s) =
         (Some (Return None), \<lparr>st = snd (task s), trace = [Call None], waits = 0\<rparr>)) \<and>
    (0 < Limit c \<longrightarrow>
       int (invocations (snd (Run fuel (Some task) sched d options (start s)))) \<le> Limit c)"
proof -
  let ?w = "start s"
  let ?w1 = "called task ?w"
  let ?R = "Run fuel (Some task) sched d options ?w"
  note valid = Run_valid [OF assms(1,2), of fuel task sched ?w]
  have w1: "?w1 = \<lparr>st = snd (task s), trace = [Call (fst (task s))], waits = 0\<rparr>"
    by (simp add: called_def start_def)
  have failed: "?R = (Some (Return (Some err)), ?w1)" if "fst (task s) = Some err" for err
    using valid assms(3,4) that by (simp add: runLimit_eq run_eq world_sel)
  have one: "?R = (Some (Return None), ?w1)" if "fst (task s) = None" "Limit c = 1"
    using valid assms(3) that by (simp add: runLimit_eq world_sel)
  have ticker: "\<exists>rest. trace (snd ?R) = Call None # NewTicker d # rest \<and>
      (rest = [] \<or> (\<exists>e rest'. rest = Select e # rest'))"
    if None: "fst (task s) = None" and not1: "Limit c \<noteq> 1"
  proof (cases "0 < Limit c")
    case True
    have R: "?R = (Some (fst (runLimit_ticker task sched d (Limit c - 1) ?w1)),
        snd (runLimit_ticker task sched d (Limit c - 1) ?w1))"
      using valid True assms(3) None not1 by (simp add: runLimit_eq world_sel)
    have "0 < Limit c - 1"
      using True not1 by simp
    from runLimit_ticker_trace [OF assms(1) this, of task sched ?w1]
    obtain e tr where "trace (snd (runLimit_ticker task sched d (Limit c - 1) ?w1)) =
        trace ?w1 @ NewTicker d # Select e # tr"
      by blast
    then show ?thesis
      using None by (simp add: R w1)
  next
    case neg: False
    have R: "?R = run_ticker fuel task sched d ?w1"
      using valid neg assms(3,4) None by (simp add: run_eq world_sel)
    from run_ticker_trace [OF assms(1), of fuel task sched ?w1]
    obtain tr where "trace (snd (run_ticker fuel task sched d ?w1)) =
        trace ?w1 @ NewTicker d # tr" "tr = [] \<or> (\<exists>e tr'. tr = Select e # tr')"
      by blast
    then show ?thesis
      using None by (simp add: R w1)
  qed
  have first: "\<exists>rest. trace (snd ?R) = Call (fst (task s)) # rest \<and>
      (rest = [] \<or> (\<exists>rest'. rest = NewTicker d # rest'))"
  proof (cases "fst (task s)")
    case (Some err)
    then show ?thesis by (simp add: failed w1)
  next
    case None
    show ?thesis
    proof (cases "Limit c = 1")
      case True
      then show ?thesis using None by (simp add: one w1)
    next
      case False
      with None ticker obtain rest where
        "trace (snd ?R) = Call None # NewTicker d # rest"
        by blast
      then show ?thesis using None by simp
    qed
  qed
  have bound: "int (invocations (snd ?R)) \<le> Limit c" if "0 < Limit c"
    using Run_cases [OF assms(1,2), of fuel task sched s] that
    by (auto simp: invocations_calls)
  show ?thesis
    using first ticker failed one bound by (simp add: w1)
qed

theorem Run_immediate_first_witness:
  "Run 3 (Some (fail_after 0 (ErrorString ''boom''))) always_tick 10
     [WithImmediate True, WithLimit 3] (start 0) =
     (Some (Return (Some (ErrorString ''boom''))),
      \<lparr>st = 1, trace = [Call (Some (ErrorString ''boom''))], waits = 0\<rparr>) \<and>
   Run 3 (Some ok_task) always_tick 10 [WithImmediate True, WithLimit 1] (start 0) =
     (Some (Return None), \<lparr>st = 1, trace = [Call None], waits = 0\<rparr>) \<and>
   int (invocations (snd (Run 3 (Some ok_task) always_tick 10
     [WithImmediate True, WithLimit 1] (start 0)))) \<le> 1 \<and>
   (\<exists>rest. trace (snd (Run 3 (Some ok_task) always_tick 10
       [WithImmediate True, WithLimit 3] (start 0))) = Call None # NewTicker 10 # rest \<and>
     (rest = [] \<or> (\<exists>e rest'. rest = Select e # rest')))"
proof -
  have d: "(0::int) < 10" by simp
  have c3: "configure [WithImmediate True, WithLimit 3] = Some \<lparr>Immediate = True, Limit = 3\<rparr>"
    by (simp add: configure_def WithLimit_def WithImmediate_def)
  have c1: "configure [WithImmediate True, WithLimit 1] = Some \<lparr>Immediate = True, Limit = 1\<rparr>"
    by (simp add: configure_def WithLimit_def WithImmediate_def)
  from Run_immediate_first [OF d c3, of 3 "fail_after 0 (ErrorString ''boom'')" always_tick 0]
  have "Run 3 (Some (fail_after 0 (ErrorString ''boom''))) always_tick 10
      [WithImmediate True, WithLimit 3] (start 0) =
      (Some (Return (Some (ErrorString ''boom''))),
       \<lparr>st = 1, trace = [Call (Some (ErrorString ''boom''))], waits = 0\<rparr>)"
    by (simp add: fail_after_def)
  moreover from Run_immediate_first [OF d c1, of 3 ok_task always_tick 0]
  have "Run 3 (Some ok_task) always_tick 10 [WithImmediate True, WithLimit 1] (start 0) =
      (Some (Return None), \<lparr>st = 1, trace = [Call None], waits = 0\<rparr>)"
    by (simp add: ok_task_def)
  moreover from Run_immediate_first [OF d c1, of 3 ok_task always_tick 0]
  have "int (invocations (snd (Run 3 (Some ok_task) always_tick 10
      [WithImmediate True, WithLimit 1] (start 0)))) \<le> 1"
    by simp
  moreover have "\<exists>rest. trace (snd (Run 3 (Some ok_task) always_tick 10
       [WithImmediate True, WithLimit 3] (start 0))) = Call None # NewTicker 10 # rest \<and>
     (rest = [] \<or> (\<exists>e rest'. rest = Select e # rest'))"
  proof -
    have imm: "Immediate \<lparr>Immediate = True, Limit = 3\<rparr>"
      and nz: "Limit \<lparr>Immediate = True, Limit = 3\<rparr> \<noteq> 0"
      and ok: "fst (ok_task 0) = None \<and> Limit \<lparr>Immediate = True, Limit = 3\<rparr> \<noteq> 1"
      by (simp_all add: ok_task_def)
    from Run_immediate_first [OF d c3 imm nz, of 3 ok_task always_tick 0] ok
    show ?thesis by blast
  qed
  ultimately show ?thesis
    by blast
qed

section \<open>Negative limits\<close>



text \<open>
  Claim C10. With a negative limit \<open>Run\<close> never returns nil. With valid arguments, what it
  returns once it returns is an error that an invocation of the task returned or the reason
  of the context found done at a wait.
\<close>

theorem Run_unbounded_never_succeeds:
  assumes "configure options = Some c" and "Limit c < 0"
    and "Run fuel task sched d options (start s) = (Some out, w')"
  shows "out \<noteq> Return None \<and>
    (0 < d \<and> task \<noteq> None \<longrightarrow>
      (\<exists>err. out = Return (Some err) \<and>
         (Call (Some err) \<in> set (trace w') \<or> Select (Done err) \<in> set (trace w'))))"
proof (cases "0 < d \<and> task \<noteq> None")
  case False
  then have "out = Return (Some ErrNonPositiveInterval) \<or> out = Return (Some ErrNilFunction)"
    using assms(3) by (cases "d \<le> 0") (auto simp: Run_invalid)
  then show ?thesis using False by auto
next
  case True
  then obtain f where f: "task = Some f" and d: "0 < d"
    by auto
  from Run_cases [OF d assms(1), of fuel f sched s] assms(2,3) f
  have "\<exists>err. out = Return (Some err) \<and>
      (Call (Some err) \<in> set (calls w') \<or> Select (Done err) \<in> set (trace w'))"
    by auto
  then show ?thesis
    using calls_subset_trace [of w'] by auto
qed

theorem Run_unbounded_never_succeeds_witness:
  "Run 5 (Some ok_task) (done_from 3 DeadlineExceeded) 1 [WithLimit (- 7)] (start 0) =
     (Some (Return (Some DeadlineExceeded)),
      \<lparr>st = 3,
        trace = [NewTicker 1, Select Tick, Call None, Select Tick, Call None, Select Tick,
          Call None, Select (Done DeadlineExceeded), Stop],
        waits = 4\<rparr>) \<and>
   Return (Some DeadlineExceeded) \<noteq> Return None \<and>
   (\<exists>err. Return (Some DeadlineExceeded) = Return (Some err) \<and>
      (Call (Some err) \<in> set [NewTicker 1, Select Tick, Call None, Select Tick, Call None,
          Select Tick, Call None, Select (Done DeadlineExceeded), Stop] \<or>
       Select (Done err) \<in> set [NewTicker 1, Select Tick, Call None, Select Tick, Call None,
          Select Tick, Call None, Select (Done DeadlineExceeded), Stop]))"
proof -
  have c: "configure [WithLimit (- 7)] = Some \<lparr>Immediate = False, Limit = - 7\<rparr>"
    by (simp add: configure_def WithLimit_def)
  have neg: "Limit \<lparr>Immediate = False, Limit = - 7\<rparr> < 0"
    by simp
  have r: "Run 5 (Some ok_task) (done_from 3 DeadlineExceeded) 1 [WithLimit (- 7)] (start 0) =
     (Some (Return (Some DeadlineExceeded)),
      \<lparr>st = 3,
        trace = [NewTicker 1, Select Tick, Call None, Select Tick, Call None, Select Tick,
          Call None, Select (Done DeadlineExceeded), Stop],
        waits = 4\<rparr>)"
    by code_simp
  from Run_unbounded_never_succeeds [OF c neg r] r show ?thesis
    by simp
qed

end
